theory Spec2Isabelle
  imports Complex_Main "HOL-Library.AList"
begin

section \<open>Numbers\<close>

text \<open>
  The node computes with JavaScript numbers, that is IEEE 754 binary64. A number is
  modelled by the rational it denotes, and every arithmetic operation of the source is the
  exact operation followed by \<open>round64\<close>, rounding to the nearest double, a tie going to the
  even significand. \<open>round64\<close> has the 53-bit significand and the subnormal range of binary64
  (no exponent below \<open>-1074\<close>). It has no upper exponent bound: a result beyond the largest
  double, which JavaScript turns into \<open>Infinity\<close>, stays finite here; \<open>NaN\<close> and the
  infinities are not values of the model.
\<close>

fun bitLength :: "nat \<Rightarrow> nat" where
  \<comment> \<open>the number of binary digits\<close>
  "bitLength n = (if n = 0 then 0 else Suc (bitLength (n div 2)))"

declare bitLength.simps [simp del]

definition ilog2 :: "rat \<Rightarrow> int" where
  \<comment> \<open>for \<open>v > 0\<close>, the exponent \<open>k\<close> with \<open>2^k \<le> v < 2^(k+1)\<close>\<close>
  "ilog2 v =
     (if 1 \<le> v then int (bitLength (nat \<lfloor>v\<rfloor>)) - 1
      else - int (bitLength (nat \<lceil>1 / v\<rceil> - 1)))"

definition pow2 :: "int \<Rightarrow> rat" where
  "pow2 e = (if 0 \<le> e then 2 ^ nat e else 1 / 2 ^ nat (- e))"

definition roundHalfEven :: "rat \<Rightarrow> int" where
  "roundHalfEven q =
     (let f = \<lfloor>q\<rfloor>; r = q - of_int f
      in if r < 1 / 2 then f
         else if 1 / 2 < r then f + 1
         else if even f then f else f + 1)"

definition round64 :: "rat \<Rightarrow> rat" where
  "round64 v =
     (if v = 0 then 0
      else let e = max (ilog2 \<bar>v\<bar> - 52) (- 1074);
               n = roundHalfEven (\<bar>v\<bar> / pow2 e)
           in sgn v * of_int n * pow2 e)"

definition fadd :: "rat \<Rightarrow> rat \<Rightarrow> rat" where
  \<comment> \<open>\<open>a + b\<close> on doubles\<close>
  "fadd a b = round64 (a + b)"

definition fsub :: "rat \<Rightarrow> rat \<Rightarrow> rat" where
  \<comment> \<open>\<open>a - b\<close> on doubles\<close>
  "fsub a b = round64 (a - b)"

definition fmul :: "rat \<Rightarrow> rat \<Rightarrow> rat" where
  \<comment> \<open>\<open>a * b\<close> on doubles\<close>
  "fmul a b = round64 (a * b)"

definition roundFixed2 :: "rat \<Rightarrow> rat" where
  \<comment> \<open>\<open>parseFloat(v.toFixed(2))\<close>: \<open>toFixed\<close> takes the multiple of 1/100 nearest to the
      exact value of the double, a tie going to the larger magnitude, and \<open>parseFloat\<close> reads
      the double nearest to that decimal; \<open>toFixed\<close> prints a number of magnitude \<open>1e21\<close> or
      more unrounded.\<close>
  "roundFixed2 v =
     (if 10 ^ 21 \<le> \<bar>v\<bar> then v
      else if v < 0 then round64 (- (of_int \<lfloor>(- v) * 100 + 1 / 2\<rfloor> / 100))
      else round64 (of_int \<lfloor>v * 100 + 1 / 2\<rfloor> / 100))"

section \<open>The segment planner\<close>

record segment =
  seg_index :: nat
  seg_start :: rat
  seg_end :: rat

text \<open>
  The \<open>while (currentStart < totalDuration)\<close> loop of \<open>execute\<close>. The loop need not
  terminate, so the result is optional: \<open>None\<close> is a loop that never leaves.
\<close>

partial_function (option) planLoop ::
  "rat \<Rightarrow> rat \<Rightarrow> rat \<Rightarrow> rat \<Rightarrow> nat \<Rightarrow> segment list \<Rightarrow> segment list option" where
  "planLoop totalDuration segmentLength step currentStart segmentIndex segments =
     (if currentStart < totalDuration then
        planLoop totalDuration segmentLength step (fadd currentStart step) (segmentIndex + 1)
          (segments @
            [\<lparr>seg_index = segmentIndex,
              seg_start = roundFixed2 currentStart,
              seg_end = roundFixed2 (min (fadd currentStart segmentLength) totalDuration)\<rparr>])
      else Some segments)"

declare planLoop.simps [code]

definition planSegments :: "rat \<Rightarrow> rat \<Rightarrow> rat \<Rightarrow> segment list option" where
  \<comment> \<open>\<open>step = segmentLength - overlap; currentStart = 0; segmentIndex = 0; segments = []\<close>\<close>
  "planSegments totalDuration segmentLength overlap =
     planLoop totalDuration segmentLength (fsub segmentLength overlap) 0 0 []"

section \<open>Parsing the probed duration\<close>

definition isDigit :: "char \<Rightarrow> bool" where
  "isDigit c = (List.member ''0123456789'' c)"

definition digitVal :: "char \<Rightarrow> nat" where
  "digitVal c = of_char c - 48"

definition parseDigits :: "string \<Rightarrow> nat" where
  \<comment> \<open>\<open>parseInt(s, 10)\<close> on a string of decimal digits\<close>
  "parseDigits s = foldl (\<lambda>n c. 10 * n + digitVal c) 0 s"

definition parseFloat :: "string \<Rightarrow> rat" where
  \<comment> \<open>\<open>parseFloat\<close> on digits, a dot, digits: the double nearest to the decimal\<close>
  "parseFloat s =
     (let whole = takeWhile isDigit s;
          frac = takeWhile isDigit (drop 1 (dropWhile isDigit s))
      in round64 (of_nat (parseDigits whole) + of_nat (parseDigits frac) / 10 ^ length frac))"

definition matchDurationAt :: "string \<Rightarrow> (string \<times> string \<times> string) option" where
  \<comment> \<open>\<open>/Duration: (\d{2}):(\d{2}):(\d{2}\.\d{2})/\<close> anchored at the head of the string\<close>
  "matchDurationAt s =
     (let t = take 11 (drop 10 s) in
      if take 10 s = ''Duration: '' \<and> length t = 11
         \<and> isDigit (t ! 0) \<and> isDigit (t ! 1) \<and> t ! 2 = CHR '':''
         \<and> isDigit (t ! 3) \<and> isDigit (t ! 4) \<and> t ! 5 = CHR '':''
         \<and> isDigit (t ! 6) \<and> isDigit (t ! 7) \<and> t ! 8 = CHR ''.''
         \<and> isDigit (t ! 9) \<and> isDigit (t ! 10)
      then Some (take 2 t, take 2 (drop 3 t), drop 6 t)
      else None)"

fun durationMatch :: "string \<Rightarrow> (string \<times> string \<times> string) option" where
  \<comment> \<open>\<open>stdout.match(...)\<close>: the leftmost match\<close>
  "durationMatch [] = None"
| "durationMatch (c # cs) =
     (case matchDurationAt (c # cs) of
        Some m \<Rightarrow> Some m
      | None \<Rightarrow> durationMatch cs)"

definition totalDurationOf :: "string \<times> string \<times> string \<Rightarrow> rat" where
  \<comment> \<open>\<open>hours * 3600 + minutes * 60 + seconds\<close>\<close>
  "totalDurationOf m =
     (case m of (h, mi, s) \<Rightarrow>
        fadd (fadd (fmul (of_nat (parseDigits h)) 3600) (fmul (of_nat (parseDigits mi)) 60))
          (parseFloat s))"

section \<open>Records, errors and the outside world\<close>

datatype error = Error (message: string)

datatype fatal = NodeOperationError error nat

type_synonym buffer = string

record binaryData =
  buffer :: buffer
  fileName :: "string option"
  fileExtension :: "string option"
  mimeType :: string

text \<open>
  An input item: its binary properties and the node parameters as \<open>getNodeParameter\<close>
  resolves them for the item. \<open>outputSegments\<close> and \<open>customFilename\<close> are optional in the
  source (they are read with a default).
\<close>

record item =
  binary :: "(string \<times> binaryData) list"
  binaryPropertyName :: string
  segmentLength :: rat
  overlap :: rat
  outputSegments :: "bool option"
  startTime :: rat
  endTime :: rat
  customFilename :: "string option"
  outputBinaryPropertyName :: string

datatype json =
    PlanSummary rat rat rat nat "segment list"
  | ExtractSummary rat rat rat
  | ErrorSummary string

record out_record =
  json :: json
  binaryOut :: "(string \<times> binaryData) list option"
  pairedItem :: nat

text \<open>
  Temporary paths. \<open>InputPath t i ext\<close> is \<open>join(tmpdir(), `input_${t}_${i}.${ext}`)\<close>,
  \<open>OutputPath t i ext\<close> is \<open>`output_${t}_${i}.${ext}`\<close> and \<open>SegmentOutputPath t i k ext\<close>
  is \<open>`output_${t}_${i}_${k}.${ext}`\<close>.
\<close>

datatype path =
    InputPath nat nat string
  | OutputPath nat nat string
  | SegmentOutputPath nat nat nat string

datatype event =
    WriteFile path
  | ProbeExec path
  | ExtractExec path rat rat path
  | ReadFile path
  | Unlink path

record world =
  files :: "path set"
  trace :: "event list"
  ticks :: nat

datatype writeResult = WriteOk | WriteFailed error bool

text \<open>
  What the node cannot decide is a parameter: the clock, the outcome of every file
  operation and engine call (each may depend on the whole state so far), the host's
  helpers and switches. \<open>WriteFailed e left\<close> is a failed write that left a file behind
  iff \<open>left\<close>; a failed extraction is \<open>Some (e, left)\<close> likewise.
\<close>

record env =
  dateNow :: "nat \<Rightarrow> nat"
  writeFileResult :: "world \<Rightarrow> path \<Rightarrow> writeResult"
  probeResult :: "world \<Rightarrow> path \<Rightarrow> error + string"
  extractResult :: "world \<Rightarrow> path \<Rightarrow> rat \<Rightarrow> rat \<Rightarrow> path \<Rightarrow> (error \<times> bool) option"
  readFileResult :: "world \<Rightarrow> path \<Rightarrow> error + buffer"
  unlinkResult :: "world \<Rightarrow> path \<Rightarrow> bool"
  prepareBinaryData :: "buffer \<Rightarrow> string \<Rightarrow> string \<Rightarrow> binaryData"
  numberToString :: "rat \<Rightarrow> string"
  missingBinaryError :: "nat \<Rightarrow> string \<Rightarrow> error"
  continueOnFail :: bool

definition logEvent :: "event \<Rightarrow> world \<Rightarrow> world" where
  "logEvent e w = w\<lparr>trace := trace w @ [e]\<rparr>"

definition dateNowCall :: "env \<Rightarrow> world \<Rightarrow> nat \<times> world" where
  \<comment> \<open>\<open>Date.now()\<close>\<close>
  "dateNowCall en w = (dateNow en (ticks w), w\<lparr>ticks := ticks w + 1\<rparr>)"

definition writeFile :: "env \<Rightarrow> path \<Rightarrow> buffer \<Rightarrow> world \<Rightarrow> (error + unit) \<times> world" where
  "writeFile en p buf w =
     (case writeFileResult en w p of
        WriteOk \<Rightarrow> (Inr (), (logEvent (WriteFile p) w)\<lparr>files := insert p (files w)\<rparr>)
      | WriteFailed e left \<Rightarrow>
          (Inl e, (logEvent (WriteFile p) w)
                    \<lparr>files := (if left then insert p (files w) else files w)\<rparr>))"

definition execProbe :: "env \<Rightarrow> path \<Rightarrow> world \<Rightarrow> (error + string) \<times> world" where
  \<comment> \<open>\<open>execAsync(`"${FFMPEG_PATH}" -i "${tempInputPath}" -f null - 2>&1 | grep "Duration"`)\<close>\<close>
  "execProbe en p w = (probeResult en w p, logEvent (ProbeExec p) w)"

definition execExtract ::
  "env \<Rightarrow> path \<Rightarrow> rat \<Rightarrow> rat \<Rightarrow> path \<Rightarrow> world \<Rightarrow> (error + unit) \<times> world" where
  \<comment> \<open>\<open>execAsync(`"${FFMPEG_PATH}" -i "${input}" -ss ${start} -t ${duration} -c copy "${output}"`)\<close>\<close>
  "execExtract en inp start duration outp w =
     (case extractResult en w inp start duration outp of
        None \<Rightarrow>
          (Inr (), (logEvent (ExtractExec inp start duration outp) w)
                     \<lparr>files := insert outp (files w)\<rparr>)
      | Some (e, left) \<Rightarrow>
          (Inl e, (logEvent (ExtractExec inp start duration outp) w)
                    \<lparr>files := (if left then insert outp (files w) else files w)\<rparr>))"

definition readFile :: "env \<Rightarrow> path \<Rightarrow> world \<Rightarrow> (error + buffer) \<times> world" where
  "readFile en p w = (readFileResult en w p, logEvent (ReadFile p) w)"

definition unlink :: "env \<Rightarrow> path \<Rightarrow> world \<Rightarrow> world" where
  \<comment> \<open>\<open>await unlink(p).catch(() => {})\<close>: the outcome is dropped\<close>
  "unlink en p w =
     (logEvent (Unlink p) w)\<lparr>files := (if unlinkResult en w p then files w - {p} else files w)\<rparr>"

section \<open>File names\<close>

definition orDefault :: "string option \<Rightarrow> string \<Rightarrow> string" where
  \<comment> \<open>\<open>v || d\<close> on an optional string: \<open>undefined\<close> and the empty string are falsy\<close>
  "orDefault v d = (case v of None \<Rightarrow> d | Some s \<Rightarrow> if s = [] then d else s)"

fun nameWithoutExt :: "string \<Rightarrow> string" where
  \<comment> \<open>\<open>originalName.replace(/\.[^/.]+$/, '')\<close>: the leftmost dot followed, up to the end, by
      one or more characters other than slash and dot\<close>
  "nameWithoutExt [] = []"
| "nameWithoutExt (c # cs) =
     (if c = CHR ''.'' \<and> cs \<noteq> [] \<and> list_all (\<lambda>d. d \<noteq> CHR ''/'' \<and> d \<noteq> CHR ''.'') cs
      then []
      else c # nameWithoutExt cs)"

definition generatedFilename :: "env \<Rightarrow> binaryData \<Rightarrow> rat \<Rightarrow> rat \<Rightarrow> string \<Rightarrow> string" where
  \<comment> \<open>\<open>`${nameWithoutExt}_${start}_${end}.${fileExtension}`\<close>\<close>
  "generatedFilename en bd start end1 ext =
     nameWithoutExt (orDefault (fileName bd) ''audio'')
       @ ''_'' @ numberToString en start @ ''_'' @ numberToString en end1 @ ''.'' @ ext"

definition outputFilename :: "env \<Rightarrow> string option \<Rightarrow> binaryData \<Rightarrow> rat \<Rightarrow> rat \<Rightarrow> string \<Rightarrow> string" where
  \<comment> \<open>lines 267 and 291 to 298; the parameter is read with the default \<open>''\<close>\<close>
  "outputFilename en custom bd start end1 ext =
     (let customFilename1 = (case custom of None \<Rightarrow> [] | Some s \<Rightarrow> s) in
      if customFilename1 \<noteq> [] then customFilename1
      else generatedFilename en bd start end1 ext)"

section \<open>Calculate Segments\<close>

text \<open>
  The \<open>for (const segment of segments)\<close> loop of the batch extraction (lines 210 to 231).
  It returns the binary output built so far or the error thrown, together with
  \<open>tempOutputPaths\<close>, which the \<open>finally\<close> block reads on both exits.
\<close>

fun extractSegments ::
  "env \<Rightarrow> nat \<Rightarrow> string \<Rightarrow> binaryData \<Rightarrow> string \<Rightarrow> path \<Rightarrow> segment list
     \<Rightarrow> (string \<times> binaryData) list \<Rightarrow> path list \<Rightarrow> world
     \<Rightarrow> (error + (string \<times> binaryData) list) \<times> path list \<times> world" where
  "extractSegments en itemIndex propName bd ext tempInputPath [] binaryOutput tempOutputPaths w =
     (Inr binaryOutput, tempOutputPaths, w)"
| "extractSegments en itemIndex propName bd ext tempInputPath (sg # rest) binaryOutput
       tempOutputPaths w =
     (let duration = fsub (seg_end sg) (seg_start sg);
          (now, w1) = dateNowCall en w;
          tempOutputPath = SegmentOutputPath now itemIndex (seg_index sg) ext;
          tempOutputPaths1 = tempOutputPaths @ [tempOutputPath]
      in case execExtract en tempInputPath (seg_start sg) duration tempOutputPath w1 of
           (Inl e, w2) \<Rightarrow> (Inl e, tempOutputPaths1, w2)
         | (Inr u, w2) \<Rightarrow>
             (case readFile en tempOutputPath w2 of
                (Inl e, w3) \<Rightarrow> (Inl e, tempOutputPaths1, w3)
              | (Inr extractedBuffer, w3) \<Rightarrow>
                  extractSegments en itemIndex propName bd ext tempInputPath rest
                    (AList.update
                       (propName @ ''_'' @ numberToString en (of_nat (seg_index sg + 1)))
                       (prepareBinaryData en extractedBuffer
                          (generatedFilename en bd (seg_start sg) (seg_end sg) ext)
                          (mimeType bd))
                       binaryOutput)
                    tempOutputPaths1 w3))"

definition unlinkAll :: "env \<Rightarrow> path list \<Rightarrow> world \<Rightarrow> world" where
  \<comment> \<open>\<open>for (const tempPath of tempOutputPaths) await unlink(tempPath).catch(() => {})\<close>\<close>
  "unlinkAll en ps w = fold (unlink en) ps w"

definition planAndExtract ::
  "env \<Rightarrow> nat \<Rightarrow> item \<Rightarrow> binaryData \<Rightarrow> string \<Rightarrow> path \<Rightarrow> world
     \<Rightarrow> ((error + out_record) \<times> world) option" where
  \<comment> \<open>the body of the outer \<open>try\<close>, lines 173 to 260\<close>
  "planAndExtract en itemIndex it bd ext tempInputPath w =
     (case execProbe en tempInputPath w of
        (Inl e, w1) \<Rightarrow> Some (Inl e, w1)
      | (Inr stdout, w1) \<Rightarrow>
          (case durationMatch stdout of
             None \<Rightarrow> Some (Inl (Error ''Could not extract duration from audio file''), w1)
           | Some m \<Rightarrow>
               (case planSegments (totalDurationOf m) (segmentLength it) (overlap it) of
                  None \<Rightarrow> None
                | Some segments \<Rightarrow>
                    (let summary = PlanSummary (totalDurationOf m) (segmentLength it) (overlap it)
                                     (length segments) segments
                     in if (case outputSegments it of None \<Rightarrow> False | Some b \<Rightarrow> b) then
                          (case extractSegments en itemIndex (binaryPropertyName it) bd ext
                                  tempInputPath segments [] [] w1 of
                             (Inl e, tempOutputPaths, w2) \<Rightarrow>
                               Some (Inl e, unlinkAll en tempOutputPaths w2)
                           | (Inr binaryOutput, tempOutputPaths, w2) \<Rightarrow>
                               Some (Inr \<lparr>json = summary, binaryOut = Some binaryOutput,
                                          pairedItem = itemIndex\<rparr>,
                                     unlinkAll en tempOutputPaths w2))
                        else Some (Inr \<lparr>json = summary, binaryOut = None,
                                        pairedItem = itemIndex\<rparr>, w1)))))"

definition calculateSegments ::
  "env \<Rightarrow> nat \<Rightarrow> item \<Rightarrow> binaryData \<Rightarrow> world \<Rightarrow> ((error + out_record) \<times> world) option" where
  \<comment> \<open>lines 164 to 263: the input file is written before the \<open>try\<close> whose \<open>finally\<close>
      unlinks it\<close>
  "calculateSegments en itemIndex it bd w =
     (let ext = orDefault (fileExtension bd) ''m4a'';
          (now, w0) = dateNowCall en w;
          tempInputPath = InputPath now itemIndex ext
      in case writeFile en tempInputPath (buffer bd) w0 of
           (Inl e, w1) \<Rightarrow> Some (Inl e, w1)
         | (Inr u, w1) \<Rightarrow>
             (case planAndExtract en itemIndex it bd ext tempInputPath w1 of
                None \<Rightarrow> None
              | Some (r, w2) \<Rightarrow> Some (r, unlink en tempInputPath w2)))"

section \<open>Extract Segment\<close>

definition extractAndRead ::
  "env \<Rightarrow> nat \<Rightarrow> item \<Rightarrow> binaryData \<Rightarrow> string \<Rightarrow> path \<Rightarrow> path \<Rightarrow> world
     \<Rightarrow> (error + out_record) \<times> world" where
  \<comment> \<open>the body of the \<open>try\<close>, lines 285 to 316\<close>
  "extractAndRead en itemIndex it bd ext tempInputPath tempOutputPath w =
     (let duration = fsub (endTime it) (startTime it)
      in case execExtract en tempInputPath (startTime it) duration tempOutputPath w of
           (Inl e, w1) \<Rightarrow> (Inl e, w1)
         | (Inr u, w1) \<Rightarrow>
             (case readFile en tempOutputPath w1 of
                (Inl e, w2) \<Rightarrow> (Inl e, w2)
              | (Inr extractedBuffer, w2) \<Rightarrow>
                  (Inr \<lparr>json = ExtractSummary (startTime it) (endTime it) duration,
                        binaryOut = Some
                          [(outputBinaryPropertyName it,
                            prepareBinaryData en extractedBuffer
                              (outputFilename en (customFilename it) bd (startTime it)
                                 (endTime it) ext)
                              (mimeType bd))],
                        pairedItem = itemIndex\<rparr>, w2)))"

definition extractSegment ::
  "env \<Rightarrow> nat \<Rightarrow> item \<Rightarrow> binaryData \<Rightarrow> world \<Rightarrow> (error + out_record) \<times> world" where
  \<comment> \<open>lines 265 to 320\<close>
  "extractSegment en itemIndex it bd w =
     (if endTime it \<le> startTime it
      then (Inl (Error ''End time must be greater than start time''), w)
      else
        (let ext = orDefault (fileExtension bd) ''m4a'';
             (now1, w1) = dateNowCall en w;
             tempInputPath = InputPath now1 itemIndex ext;
             (now2, w2) = dateNowCall en w1;
             tempOutputPath = OutputPath now2 itemIndex ext
         in case writeFile en tempInputPath (buffer bd) w2 of
              (Inl e, w3) \<Rightarrow> (Inl e, w3)
            | (Inr u, w3) \<Rightarrow>
                (case extractAndRead en itemIndex it bd ext tempInputPath tempOutputPath w3 of
                   (r, w4) \<Rightarrow> (r, unlink en tempOutputPath (unlink en tempInputPath w4)))))"

section \<open>The run over the input items\<close>

definition processItem ::
  "env \<Rightarrow> string \<Rightarrow> nat \<Rightarrow> item \<Rightarrow> world \<Rightarrow> ((error + out_record list) \<times> world) option" where
  \<comment> \<open>the body of the per-item \<open>try\<close>, lines 159 to 321; the result lists the records
      pushed to \<open>returnData\<close>. \<open>assertBinaryData\<close> throws when the property is missing.\<close>
  "processItem en operation itemIndex it w =
     (case map_of (binary it) (binaryPropertyName it) of
        None \<Rightarrow> Some (Inl (missingBinaryError en itemIndex (binaryPropertyName it)), w)
      | Some bd \<Rightarrow>
          if operation = ''calculateSegments'' then
            (case calculateSegments en itemIndex it bd w of
               None \<Rightarrow> None
             | Some (Inl e, w1) \<Rightarrow> Some (Inl e, w1)
             | Some (Inr r, w1) \<Rightarrow> Some (Inr [r], w1))
          else if operation = ''extractSegment'' then
            (case extractSegment en itemIndex it bd w of
               (Inl e, w1) \<Rightarrow> Some (Inl e, w1)
             | (Inr r, w1) \<Rightarrow> Some (Inr [r], w1))
          else Some (Inr [], w))"

text \<open>
  The \<open>for\<close> loop over the items. It ends with \<open>returnData\<close>, or with the error the \<open>catch\<close>
  re-throws; a throw leaves \<open>execute\<close>, so nothing of \<open>returnData\<close> is returned then.
\<close>

fun executeLoop ::
  "env \<Rightarrow> string \<Rightarrow> nat \<Rightarrow> item list \<Rightarrow> out_record list \<Rightarrow> world
     \<Rightarrow> ((fatal + out_record list) \<times> world) option" where
  "executeLoop en operation itemIndex [] returnData w = Some (Inr returnData, w)"
| "executeLoop en operation itemIndex (it # items) returnData w =
     (case processItem en operation itemIndex it w of
        None \<Rightarrow> None
      | Some (Inr pushed, w1) \<Rightarrow>
          executeLoop en operation (itemIndex + 1) items (returnData @ pushed) w1
      | Some (Inl e, w1) \<Rightarrow>
          if continueOnFail en then
            executeLoop en operation (itemIndex + 1) items
              (returnData @ [\<lparr>json = ErrorSummary (message e), binaryOut = None,
                               pairedItem = itemIndex\<rparr>]) w1
          else Some (Inl (NodeOperationError e itemIndex), w1))"

definition returnValue ::
  "(fatal + out_record list) \<times> world \<Rightarrow> (fatal + out_record list list) \<times> world" where
  \<comment> \<open>\<open>return [returnData]\<close>, or the error re-thrown by the \<open>catch\<close>\<close>
  "returnValue x =
     (case x of
        (Inr returnData, w1) \<Rightarrow> (Inr [returnData], w1)
      | (Inl f, w1) \<Rightarrow> (Inl f, w1))"

definition execute ::
  "env \<Rightarrow> string \<Rightarrow> item list \<Rightarrow> world \<Rightarrow> ((fatal + out_record list list) \<times> world) option" where
  "execute en operation items w =
     map_option returnValue (executeLoop en operation 0 items [] w)"

section \<open>Notions used in the statements\<close>

text \<open>
  A number is a whole multiple of 0.25. On such numbers, below \<open>2^51\<close>, the arithmetic of
  doubles and the rounding to two decimals are exact.
\<close>

definition quarter :: "rat \<Rightarrow> bool" where
  "quarter v = (of_int \<lfloor>v * 4\<rfloor> = v * 4)"

text \<open>
  The value of \<open>currentStart\<close> when the planning loop enters its \<open>i\<close>-th round, and the
  descriptor the loop emits in that round.
\<close>

fun currentStartAt :: "rat \<Rightarrow> nat \<Rightarrow> rat" where
  "currentStartAt step 0 = 0"
| "currentStartAt step (Suc i) = fadd (currentStartAt step i) step"

definition plannedSegment :: "rat \<Rightarrow> rat \<Rightarrow> rat \<Rightarrow> nat \<Rightarrow> segment" where
  "plannedSegment T L step i =
     \<lparr>seg_index = i,
      seg_start = roundFixed2 (currentStartAt step i),
      seg_end = roundFixed2 (min (fadd (currentStartAt step i) L) T)\<rparr>"

text \<open>The same descriptor where the sums are exact and the start needs no rounding.\<close>

definition exactSegment :: "rat \<Rightarrow> rat \<Rightarrow> rat \<Rightarrow> nat \<Rightarrow> segment" where
  "exactSegment T L step i =
     \<lparr>seg_index = i,
      seg_start = of_nat i * step,
      seg_end = roundFixed2 (min (of_nat i * step + L) T)\<rparr>"

text \<open>Reading the trace of a run.\<close>

fun isUnlink :: "event \<Rightarrow> bool" where
  "isUnlink (Unlink p) = True"
| "isUnlink e = False"

fun isExtractExec :: "event \<Rightarrow> bool" where
  "isExtractExec (ExtractExec inp s d outp) = True"
| "isExtractExec e = False"

fun createdPaths :: "event list \<Rightarrow> path list" where
  \<comment> \<open>the paths a file may have been created at: written to, or named as an output\<close>
  "createdPaths [] = []"
| "createdPaths (WriteFile p # es) = p # createdPaths es"
| "createdPaths (ExtractExec inp s d outp # es) = outp # createdPaths es"
| "createdPaths (e # es) = createdPaths es"

definition segmentEvents :: "path \<Rightarrow> segment list \<Rightarrow> path list \<Rightarrow> event list" where
  \<comment> \<open>one extraction and one read per segment, in order\<close>
  "segmentEvents inp segs outs =
     concat (map2 (\<lambda>sg p. [ExtractExec inp (seg_start sg) (fsub (seg_end sg) (seg_start sg)) p,
                            ReadFile p]) segs outs)"

section \<open>Sample inputs\<close>

text \<open>
  A decimal printer standing in for the number-to-string conversion of the host language.
  It prints the nearest multiple of 0.01, which is what JavaScript prints for 30, for 0.5
  and for the doubles nearest to 0.13 or 29.9; it is used on such values only.
\<close>

fun showNat :: "nat \<Rightarrow> string" where
  "showNat n =
     (if n < 10 then [''0123456789'' ! n]
      else showNat (n div 10) @ [''0123456789'' ! (n mod 10)])"

declare showNat.simps [simp del]

definition showNumber :: "rat \<Rightarrow> string" where
  "showNumber v =
     (let h = nat \<lfloor>\<bar>v\<bar> * 100 + 1 / 2\<rfloor>;
          frac = h mod 100
      in (if v < 0 then ''-'' else [])
           @ showNat (h div 100)
           @ (if frac = 0 then []
              else if frac mod 10 = 0 then ''.'' @ showNat (frac div 10)
              else ''.'' @ showNat (frac div 10) @ showNat (frac mod 10)))"

text \<open>
  An environment in which every file operation and engine call succeeds and the probe
  prints the given text; the clock advances by one per reading.
\<close>

definition sampleEnv :: "string \<Rightarrow> env" where
  "sampleEnv stdout =
     \<lparr>dateNow = (\<lambda>n. 1000 + n),
      writeFileResult = (\<lambda>w p. WriteOk),
      probeResult = (\<lambda>w p. Inr stdout),
      extractResult = (\<lambda>w inp s d outp. None),
      readFileResult = (\<lambda>w p. Inr ''bytes''),
      unlinkResult = (\<lambda>w p. True),
      prepareBinaryData = (\<lambda>buf name mime.
         \<lparr>buffer = buf, fileName = Some name, fileExtension = None, mimeType = mime\<rparr>),
      numberToString = showNumber,
      missingBinaryError = (\<lambda>i name. Error ''no binary data''),
      continueOnFail = False\<rparr>"

definition sampleItem :: item where
  "sampleItem =
     \<lparr>binary = [(''data'',
         \<lparr>buffer = ''abc'', fileName = Some ''talk.m4a'', fileExtension = Some ''m4a'',
          mimeType = ''audio/mp4''\<rparr>)],
      binaryPropertyName = ''data'',
      segmentLength = 30,
      overlap = 0,
      outputSegments = None,
      startTime = 0,
      endTime = 30,
      customFilename = None,
      outputBinaryPropertyName = ''data''\<rparr>"

definition emptyWorld :: world where
  "emptyWorld = \<lparr>files = {}, trace = [], ticks = 0\<rparr>"

text \<open>The same environment, except that no deletion succeeds.\<close>

definition stuckFilesEnv :: "string \<Rightarrow> env" where
  "stuckFilesEnv stdout = (sampleEnv stdout)\<lparr>unlinkResult := (\<lambda>w p. False)\<rparr>"

text \<open>Sample runs: the inputs, and the record and the state they end in.\<close>

definition minuteProbe :: string where
  "minuteProbe = ''  Duration: 00:01:00.00, start: 0.000000, bitrate: 128 kb/s''"

definition batchItem :: item where
  "batchItem = sampleItem\<lparr>outputSegments := Some True\<rparr>"

definition batchRecord :: out_record where
  "batchRecord =
     \<lparr>json = PlanSummary 60 30 0 2
        [\<lparr>seg_index = 0, seg_start = 0, seg_end = 30\<rparr>,
         \<lparr>seg_index = 1, seg_start = 30, seg_end = 60\<rparr>],
      binaryOut = Some
        [(''data_1'', \<lparr>buffer = ''bytes'', fileName = Some ''talk_0_30.m4a'',
                      fileExtension = None, mimeType = ''audio/mp4''\<rparr>),
         (''data_2'', \<lparr>buffer = ''bytes'', fileName = Some ''talk_30_60.m4a'',
                      fileExtension = None, mimeType = ''audio/mp4''\<rparr>)],
      pairedItem = 0\<rparr>"

definition batchWorld :: world where
  "batchWorld =
     \<lparr>files = {},
      trace = [WriteFile (InputPath 1000 0 ''m4a''),
               ProbeExec (InputPath 1000 0 ''m4a''),
               ExtractExec (InputPath 1000 0 ''m4a'') 0 30 (SegmentOutputPath 1001 0 0 ''m4a''),
               ReadFile (SegmentOutputPath 1001 0 0 ''m4a''),
               ExtractExec (InputPath 1000 0 ''m4a'') 30 30 (SegmentOutputPath 1002 0 1 ''m4a''),
               ReadFile (SegmentOutputPath 1002 0 1 ''m4a''),
               Unlink (SegmentOutputPath 1001 0 0 ''m4a''),
               Unlink (SegmentOutputPath 1002 0 1 ''m4a''),
               Unlink (InputPath 1000 0 ''m4a'')],
      ticks = 3\<rparr>"

definition extractRecord :: out_record where
  "extractRecord =
     \<lparr>json = ExtractSummary 0 30 30,
      binaryOut = Some
        [(''data'', \<lparr>buffer = ''bytes'', fileName = Some ''talk_0_30.m4a'',
                    fileExtension = None, mimeType = ''audio/mp4''\<rparr>)],
      pairedItem = 0\<rparr>"

definition extractWorld :: world where
  "extractWorld =
     \<lparr>files = {},
      trace = [WriteFile (InputPath 1000 0 ''m4a''),
               ExtractExec (InputPath 1000 0 ''m4a'') 0 30 (OutputPath 1001 0 ''m4a''),
               ReadFile (OutputPath 1001 0 ''m4a''),
               Unlink (InputPath 1000 0 ''m4a''),
               Unlink (OutputPath 1001 0 ''m4a'')],
      ticks = 2\<rparr>"

definition silentProbe :: string where
  "silentProbe = ''  Duration: 00:00:00.00, start: 0.000000, bitrate: 0 kb/s''"

definition sampleBinary :: binaryData where
  "sampleBinary =
     \<lparr>buffer = ''abc'', fileName = Some ''talk.m4a'', fileExtension = Some ''m4a'',
      mimeType = ''audio/mp4''\<rparr>"

definition tenSecondProbe :: string where
  "tenSecondProbe = ''  Duration: 00:00:10.00, start: 0.000000, bitrate: 128 kb/s''"

text \<open>The sample environment with the continue-on-fail switch set.\<close>

definition tolerantEnv :: env where
  "tolerantEnv = (sampleEnv [])\<lparr>continueOnFail := True\<rparr>"

text \<open>Three items for Extract Segment; the middle one has an empty time range.\<close>

definition threeItems :: "item list" where
  "threeItems = [sampleItem, sampleItem\<lparr>startTime := 10, endTime := 10\<rparr>, sampleItem]"

definition rangeError :: error where
  "rangeError = Error ''End time must be greater than start time''"

definition rangeErrorRecord :: out_record where
  "rangeErrorRecord =
     \<lparr>json = ErrorSummary ''End time must be greater than start time'', binaryOut = None,
      pairedItem = 1\<rparr>"

definition threeItemsWorld :: world where
  "threeItemsWorld =
     \<lparr>files = {},
      trace = trace extractWorld @
              [WriteFile (InputPath 1002 2 ''m4a''),
               ExtractExec (InputPath 1002 2 ''m4a'') 0 30 (OutputPath 1003 2 ''m4a''),
               ReadFile (OutputPath 1003 2 ''m4a''),
               Unlink (InputPath 1002 2 ''m4a''),
               Unlink (OutputPath 1003 2 ''m4a'')],
      ticks = 4\<rparr>"

text \<open>
  A batch run with an overlap of 0.1: the boundaries are doubles that are not whole, and
  the last duration is the difference of two doubles, \<open>0.20000000000000284\<close>.
\<close>

definition overlapItem :: item where
  "overlapItem = batchItem\<lparr>overlap := round64 (1 / 10)\<rparr>"

definition overlapRecord :: out_record where
  "overlapRecord =
     \<lparr>json = PlanSummary 60 30 (round64 (1 / 10)) 3
        [\<lparr>seg_index = 0, seg_start = 0, seg_end = 30\<rparr>,
         \<lparr>seg_index = 1, seg_start = round64 (299 / 10), seg_end = round64 (599 / 10)\<rparr>,
         \<lparr>seg_index = 2, seg_start = round64 (598 / 10), seg_end = 60\<rparr>],
      binaryOut = Some
        [(''data_1'', \<lparr>buffer = ''bytes'', fileName = Some ''talk_0_30.m4a'',
                      fileExtension = None, mimeType = ''audio/mp4''\<rparr>),
         (''data_2'', \<lparr>buffer = ''bytes'', fileName = Some ''talk_29.9_59.9.m4a'',
                      fileExtension = None, mimeType = ''audio/mp4''\<rparr>),
         (''data_3'', \<lparr>buffer = ''bytes'', fileName = Some ''talk_59.8_60.m4a'',
                      fileExtension = None, mimeType = ''audio/mp4''\<rparr>)],
      pairedItem = 0\<rparr>"

definition overlapWorld :: world where
  "overlapWorld =
     \<lparr>files = {},
      trace = [WriteFile (InputPath 1000 0 ''m4a''),
               ProbeExec (InputPath 1000 0 ''m4a''),
               ExtractExec (InputPath 1000 0 ''m4a'') 0 30 (SegmentOutputPath 1001 0 0 ''m4a''),
               ReadFile (SegmentOutputPath 1001 0 0 ''m4a''),
               ExtractExec (InputPath 1000 0 ''m4a'') (round64 (299 / 10)) 30
                 (SegmentOutputPath 1002 0 1 ''m4a''),
               ReadFile (SegmentOutputPath 1002 0 1 ''m4a''),
               ExtractExec (InputPath 1000 0 ''m4a'') (round64 (598 / 10))
                 (fsub 60 (round64 (598 / 10))) (SegmentOutputPath 1003 0 2 ''m4a''),
               ReadFile (SegmentOutputPath 1003 0 2 ''m4a''),
               Unlink (SegmentOutputPath 1001 0 0 ''m4a''),
               Unlink (SegmentOutputPath 1002 0 1 ''m4a''),
               Unlink (SegmentOutputPath 1003 0 2 ''m4a''),
               Unlink (InputPath 1000 0 ''m4a'')],
      ticks = 4\<rparr>"

definition quarterSecondProbe :: string where
  "quarterSecondProbe = ''  Duration: 00:00:00.25, start: 0.000000, bitrate: 128 kb/s''"

section \<open>The planner\<close>

lemma floor_rat_numeral_divide [simp]:
  "\<lfloor>numeral a / numeral b :: rat\<rfloor> = numeral a div numeral b"
  by (metis floor_divide_of_int_eq of_int_numeral)

lemma floor_rat_one_divide [simp]:
  "\<lfloor>1 / numeral b :: rat\<rfloor> = 1 div numeral b"
  by (metis floor_divide_of_int_eq of_int_numeral of_int_1)

lemma ceiling_rat_numeral_divide [simp]:
  "\<lceil>numeral a / numeral b :: rat\<rceil> = - (- numeral a div numeral b)"
  unfolding ceiling_def
  by (metis floor_divide_of_int_eq of_int_numeral of_int_minus minus_divide_left)

lemma ceiling_rat_one_divide [simp]:
  "\<lceil>1 / numeral b :: rat\<rceil> = - (- 1 div numeral b)"
  unfolding ceiling_def
  by (metis floor_divide_of_int_eq of_int_numeral of_int_minus minus_divide_left of_int_1)

lemmas float_defs = round64_def ilog2_def pow2_def roundHalfEven_def fadd_def fsub_def fmul_def
  bitLength.simps Let_def

subsection \<open>Rounding to the nearest double\<close>

lemma bitLength_le: "n < 2 ^ k \<Longrightarrow> bitLength n \<le> k"
proof (induction k arbitrary: n)
  case 0
  then show ?case by (simp add: bitLength.simps)
next
  case (Suc k)
  show ?case
  proof (cases "n = 0")
    case True
    then show ?thesis by (simp add: bitLength.simps)
  next
    case False
    have "n div 2 < 2 ^ k" using Suc.prems by simp
    then have "bitLength (n div 2) \<le> k" by (rule Suc.IH)
    then show ?thesis using False by (subst bitLength.simps) simp
  qed
qed

lemma ilog2_le:
  assumes "0 < v" "v < 2 ^ Suc k"
  shows "ilog2 v \<le> int k"
proof (cases "1 \<le> v")
  case True
  have "\<lfloor>v\<rfloor> < 2 ^ Suc k" using assms(2) by (simp add: floor_less_iff)
  then have "nat \<lfloor>v\<rfloor> < 2 ^ Suc k" using True
    by (metis nat_less_iff of_nat_numeral of_nat_power zero_le_floor zero_le_one order_trans)
  then have "bitLength (nat \<lfloor>v\<rfloor>) \<le> Suc k" by (rule bitLength_le)
  then show ?thesis using True by (simp add: ilog2_def)
next
  case False
  then show ?thesis by (simp add: ilog2_def)
qed

lemma roundHalfEven_of_int: "roundHalfEven (of_int z) = z"
  by (simp add: roundHalfEven_def)

lemma roundHalfEven_nonneg: "0 \<le> q \<Longrightarrow> 0 \<le> roundHalfEven q"
  by (simp add: roundHalfEven_def Let_def)

lemma pow2_pos: "0 < pow2 e"
  by (simp add: pow2_def)

lemma round64_sign:
  "round64 v = sgn v * (of_int (roundHalfEven (\<bar>v\<bar> / pow2 (max (ilog2 \<bar>v\<bar> - 52) (- 1074))))
                 * pow2 (max (ilog2 \<bar>v\<bar> - 52) (- 1074)))"
  by (simp add: round64_def Let_def)

lemma round64_magnitude_nonneg:
  "0 \<le> (of_int (roundHalfEven (\<bar>v\<bar> / pow2 e)) * pow2 e :: rat)"
proof -
  have "0 \<le> \<bar>v\<bar> / pow2 e" using pow2_pos[of e] by simp
  then have "0 \<le> roundHalfEven (\<bar>v\<bar> / pow2 e)" by (rule roundHalfEven_nonneg)
  then show ?thesis using pow2_pos[of e] by simp
qed

lemma round64_nonneg: "0 \<le> v \<Longrightarrow> 0 \<le> round64 v"
  unfolding round64_sign using round64_magnitude_nonneg[of v]
  by (simp add: sgn_if)

lemma round64_nonpos: "v \<le> 0 \<Longrightarrow> round64 v \<le> 0"
  unfolding round64_sign using round64_magnitude_nonneg[of v]
  by (simp add: sgn_if)

lemma quarter_iff: "quarter v \<longleftrightarrow> (\<exists>m::int. v = of_int m / 4)"
proof
  assume "quarter v"
  then have e: "of_int \<lfloor>v * 4\<rfloor> = v * 4" unfolding quarter_def .
  have "v = of_int \<lfloor>v * 4\<rfloor> / 4" unfolding e by simp
  then show "\<exists>m::int. v = of_int m / 4" ..
next
  assume "\<exists>m::int. v = of_int m / 4"
  then obtain m :: int where "v = of_int m / 4" ..
  then have "v * 4 = of_int m" by simp
  then show "quarter v" unfolding quarter_def by (simp only: floor_of_int)
qed

lemma round64_quarter:
  assumes q: "quarter v" and b: "\<bar>v\<bar> < 2 ^ 51"
  shows "round64 v = v"
proof (cases "v = 0")
  case True
  then show ?thesis by (simp add: round64_def)
next
  case False
  obtain m :: int where m: "v = of_int m / 4" using q by (auto simp: quarter_iff)
  define e where "e = max (ilog2 \<bar>v\<bar> - 52) (- 1074)"
  have "ilog2 \<bar>v\<bar> \<le> int 50" using False b by (intro ilog2_le) simp_all
  then have e2: "e \<le> - 2" and e1: "- 1074 \<le> e" unfolding e_def by simp_all
  define j where "j = nat (- e) - 2"
  have ne: "nat (- e) = Suc (Suc j)" using e2 unfolding j_def by simp
  have p: "pow2 e = 1 / (4 * 2 ^ j)" using e2 by (simp add: pow2_def ne)
  have "\<bar>v\<bar> / pow2 e = of_int (\<bar>m\<bar> * 2 ^ j)"
    by (simp add: p m abs_divide)
  then have r: "roundHalfEven (\<bar>v\<bar> / pow2 e) = \<bar>m\<bar> * 2 ^ j"
    by (simp only: roundHalfEven_of_int)
  have "round64 v = sgn v * of_int (\<bar>m\<bar> * 2 ^ j) * pow2 e"
    using False by (simp add: round64_def Let_def e_def[symmetric] r)
  also have "\<dots> = sgn v * \<bar>v\<bar>" by (simp add: p m abs_divide)
  also have "\<dots> = v" by (simp add: sgn_if)
  finally show ?thesis .
qed

lemma quarter_add: "quarter a \<Longrightarrow> quarter b \<Longrightarrow> quarter (a + b)"
proof -
  assume "quarter a" "quarter b"
  then obtain x y :: int where "a = of_int x / 4" "b = of_int y / 4"
    by (auto simp: quarter_iff)
  then have "a + b = of_int (x + y) / 4" by (simp add: add_divide_distrib)
  then show ?thesis unfolding quarter_iff by blast
qed

lemma quarter_diff: "quarter a \<Longrightarrow> quarter b \<Longrightarrow> quarter (a - b)"
proof -
  assume "quarter a" "quarter b"
  then obtain x y :: int where "a = of_int x / 4" "b = of_int y / 4"
    by (auto simp: quarter_iff)
  then have "a - b = of_int (x - y) / 4" by (simp add: diff_divide_distrib)
  then show ?thesis unfolding quarter_iff by blast
qed

lemma quarter_mult_nat: "quarter a \<Longrightarrow> quarter (of_nat i * a)"
proof -
  assume "quarter a"
  then obtain x :: int where "a = of_int x / 4" by (auto simp: quarter_iff)
  then have "of_nat i * a = of_int (int i * x) / 4" by simp
  then show ?thesis unfolding quarter_iff by blast
qed

lemma quarter_zero: "quarter 0"
  by (simp add: quarter_def)

lemma roundFixed2_quarter:
  assumes q: "quarter v" and nn: "0 \<le> v" and b: "v < 2 ^ 51"
  shows "roundFixed2 v = v"
proof -
  obtain m :: int where m: "v = of_int m / 4" using q by (auto simp: quarter_iff)
  have v100: "v * 100 = of_int (m * 25)" by (simp add: m)
  have "\<lfloor>(of_int (m * 25) :: rat) + 1 / 2\<rfloor> = m * 25" by linarith
  then have "\<lfloor>v * 100 + 1 / 2\<rfloor> = m * 25" by (simp only: v100)
  then have "of_int \<lfloor>v * 100 + 1 / 2\<rfloor> / 100 = v" by (simp add: m)
  moreover have "(2::rat) ^ 51 < 10 ^ 21" by simp
  ultimately show ?thesis
    using nn b round64_quarter[OF q] by (simp add: roundFixed2_def)
qed

subsection \<open>The planning loop\<close>

lemma planLoop_stuck:
  assumes "step \<le> 0" "cur \<le> 0" "0 < T"
  shows "planLoop T L step cur idx acc = None"
proof -
  have "\<not> (st \<le> 0 \<and> c \<le> 0 \<and> 0 < T')" if "planLoop T' L' st c i a = Some y" for T' L' st c i a y
  proof (rule planLoop.raw_induct[where P = "\<lambda>T' L' st c i a y. \<not> (st \<le> 0 \<and> c \<le> 0 \<and> 0 < T')", OF _ that])
    fix f T' L' st c i a y
    assume IH: "\<And>T' L' st c i a y. f T' L' st c i a = Some y \<Longrightarrow> \<not> (st \<le> 0 \<and> c \<le> 0 \<and> 0 < T')"
      and eq: "(if c < T' then f T' L' st (fadd c st) (i + 1)
                   (a @ [\<lparr>seg_index = i, seg_start = roundFixed2 c,
                          seg_end = roundFixed2 (min (fadd c L') T')\<rparr>])
                else Some a) = Some y"
    show "\<not> (st \<le> 0 \<and> c \<le> 0 \<and> 0 < T')"
    proof
      assume h: "st \<le> 0 \<and> c \<le> 0 \<and> 0 < T'"
      then have "fadd c st \<le> 0" unfolding fadd_def by (intro round64_nonpos) simp
      moreover have "f T' L' st (fadd c st) (i + 1)
                   (a @ [\<lparr>seg_index = i, seg_start = roundFixed2 c,
                          seg_end = roundFixed2 (min (fadd c L') T')\<rparr>]) = Some y"
        using h eq by simp
      ultimately show False using IH h by blast
    qed
  qed
  with assms show ?thesis by (cases "planLoop T L step cur idx acc") auto
qed

lemma planSegments_stuck:
  assumes "L \<le> ov" "0 < T"
  shows "planSegments T L ov = None"
proof -
  have "fsub L ov \<le> 0" unfolding fsub_def using assms(1) by (intro round64_nonpos) simp
  then show ?thesis unfolding planSegments_def using assms(2) by (intro planLoop_stuck) simp_all
qed

lemma below_ceiling:
  fixes x :: rat
  shows "(int k < \<lceil>x\<rceil>) = (of_nat k < x)"
  by (metis less_ceiling_iff of_int_of_nat_eq)

lemma planLoop_exact:
  assumes st: "0 < step" "step \<le> L" and q: "quarter step" "quarter L"
    and b: "T \<le> 2 ^ 49" "L \<le> 2 ^ 49"
    and k: "k \<le> n" "n = nat \<lceil>T / step\<rceil>"
  shows "planLoop T L step (of_nat k * step) k acc =
           Some (acc @ map (exactSegment T L step) [k..<n])"
  using k
proof (induction "n - k" arbitrary: k acc)
  case 0
  then have "k = n" by simp
  then have "\<lceil>T / step\<rceil> \<le> int k" using 0 by simp
  then have "T / step \<le> of_nat k" by (metis ceiling_le_iff of_int_of_nat_eq)
  then have "\<not> of_nat k * step < T" using \<open>0 < step\<close>
    by (simp add: pos_divide_le_eq not_less)
  then show ?case using \<open>k = n\<close> by (subst planLoop.simps) simp
next
  case (Suc d)
  then have kn: "k < n" by simp
  then have "int k < \<lceil>T / step\<rceil>" using Suc.prems by simp
  then have "of_nat k < T / step" by (simp add: below_ceiling)
  then have lt: "of_nat k * step < T" using \<open>0 < step\<close> by (simp add: pos_less_divide_eq)
  have nn: "0 \<le> of_nat k * step" using st(1) by simp
  have qc: "quarter (of_nat k * step)" using q(1) by (rule quarter_mult_nat)
  have "(2::rat) ^ 49 + 2 ^ 49 < 2 ^ 51" by simp
  then have big: "of_nat k * step + L < 2 ^ 51" using lt b by linarith
  have step_eq: "of_nat k * step + step = of_nat (Suc k) * step" by (simp add: algebra_simps)
  have a1: "fadd (of_nat k * step) step = of_nat (Suc k) * step"
  proof -
    have "quarter (of_nat k * step + step)" using qc q(1) by (rule quarter_add)
    moreover have "\<bar>of_nat k * step + step\<bar> < 2 ^ 51" using nn st big by simp
    ultimately show ?thesis unfolding fadd_def step_eq[symmetric] by (rule round64_quarter)
  qed
  have a2: "fadd (of_nat k * step) L = of_nat k * step + L"
  proof -
    have "quarter (of_nat k * step + L)" using qc q(2) by (rule quarter_add)
    moreover have "\<bar>of_nat k * step + L\<bar> < 2 ^ 51" using nn st big by simp
    ultimately show ?thesis unfolding fadd_def by (rule round64_quarter)
  qed
  have a3: "roundFixed2 (of_nat k * step) = of_nat k * step"
    using qc nn by (rule roundFixed2_quarter) (use big st in linarith)
  have IH: "planLoop T L step (of_nat (Suc k) * step) (Suc k) acc' =
           Some (acc' @ map (exactSegment T L step) [Suc k..<n])" for acc'
    using Suc.hyps(1)[of "Suc k" acc'] Suc.hyps(2) Suc.prems kn by simp
  show ?case
    apply (subst planLoop.simps)
    using lt kn
    apply (simp only: if_True a1 a2 a3 Suc_eq_plus1[symmetric] IH)
    apply (simp add: upt_conv_Cons exactSegment_def)
    done
qed

lemma planSegments_exact:
  assumes "0 \<le> ov" "ov < L" "quarter L" "quarter ov" "T \<le> 2 ^ 49" "L \<le> 2 ^ 49"
  shows "planSegments T L ov =
           Some (map (exactSegment T L (L - ov)) [0..<nat \<lceil>T / (L - ov)\<rceil>])"
proof -
  have qs: "quarter (L - ov)" using assms(3,4) by (rule quarter_diff)
  have "(2::rat) ^ 49 < 2 ^ 51" by simp
  then have "\<bar>L - ov\<bar> < 2 ^ 51" using assms by linarith
  then have s: "fsub L ov = L - ov" unfolding fsub_def using qs by (intro round64_quarter)
  have "planLoop T L (L - ov) (of_nat 0 * (L - ov)) 0 [] =
          Some ([] @ map (exactSegment T L (L - ov)) [0..<nat \<lceil>T / (L - ov)\<rceil>])"
    using assms qs by (intro planLoop_exact) simp_all
  then show ?thesis by (simp add: planSegments_def s)
qed

lemma binary64_accumulates:
  "map_option length (planSegments 1 (round64 (1/10)) 0) = Some 11"
  by (simp add: planSegments_def planLoop.simps roundFixed2_def float_defs)

lemma last_planned_reaches:
  fixes T L ov :: rat
  assumes "0 < T" "0 \<le> ov" "ov < L" "n = nat \<lceil>T / (L - ov)\<rceil>"
  shows "min (of_nat (n - 1) * (L - ov) + L) T = T"
proof -
  have st: "0 < L - ov" using assms by simp
  have q: "0 < T / (L - ov)" using assms(1) st by simp
  have npos: "0 < n" using q assms(4) by simp
  have "T / (L - ov) \<le> of_int \<lceil>T / (L - ov)\<rceil>" by (rule le_of_int_ceiling)
  also have "\<dots> = of_nat n"
  proof -
    have "0 \<le> \<lceil>T / (L - ov)\<rceil>" using q by simp
    then show ?thesis unfolding assms(4) by (simp only: of_nat_nat)
  qed
  finally have le: "T \<le> of_nat n * (L - ov)" using st by (simp add: pos_divide_le_eq)
  obtain m where m: "n = Suc m" using npos by (cases n) auto
  have "T \<le> of_nat (Suc m) * (L - ov)" using le unfolding m .
  then have "T \<le> of_nat m * (L - ov) + L - ov" by (simp add: algebra_simps)
  then have "T \<le> of_nat (n - 1) * (L - ov) + L - ov" unfolding m by simp
  then have "T \<le> of_nat (n - 1) * (L - ov) + L" using assms by linarith
  then show ?thesis by simp
qed

text \<open>
  Claim C1, as the code has it. Let \<open>totalDuration > 0\<close>, \<open>segmentLength > 0\<close> and
  \<open>0 \<le> overlap < segmentLength\<close>, with segment length and overlap multiples of 0.25 and
  nothing above \<open>2^49\<close>, so that the sums of doubles in the loop are exact. Then the
  planner returns a non-empty plan whose first segment starts at 0 and whose last segment
  ends at the total duration rounded to two decimals; the \<open>i\<close>-th segment starts at
  \<open>i * step\<close> and ends at the rounding of \<open>min (i * step + segmentLength) totalDuration\<close>, so
  consecutive starts differ by \<open>segmentLength - overlap\<close>. When the total duration is a
  multiple of 0.25 too, the last segment ends at it exactly and no segment is longer than
  \<open>segmentLength\<close>.
\<close>

theorem plan_shape:
  assumes "0 < T" "0 < L" "0 \<le> ov" "ov < L"
    and "quarter L" "quarter ov" "T \<le> 2 ^ 49" "L \<le> 2 ^ 49"
  shows "\<exists>segs. planSegments T L ov = Some segs \<and> segs \<noteq> [] \<and>
           seg_start (hd segs) = 0 \<and>
           seg_end (last segs) = roundFixed2 T \<and>
           (\<forall>i<length segs. segs ! i = exactSegment T L (L - ov) i) \<and>
           (\<forall>i. Suc i < length segs \<longrightarrow>
              seg_start (segs ! Suc i) = seg_start (segs ! i) + (L - ov)) \<and>
           (quarter T \<longrightarrow>
              seg_end (last segs) = T \<and>
              (\<forall>i<length segs. seg_end (segs ! i) - seg_start (segs ! i) \<le> L))"
proof -
  define n where "n = nat \<lceil>T / (L - ov)\<rceil>"
  define segs where "segs = map (exactSegment T L (L - ov)) [0..<n]"
  have st: "0 < L - ov" using assms by simp
  have q: "0 < T / (L - ov)" using assms(1) st by simp
  have npos: "0 < n" unfolding n_def using q by simp
  have plan: "planSegments T L ov = Some segs"
    unfolding segs_def n_def using assms by (intro planSegments_exact)
  have len: "length segs = n" by (simp add: segs_def)
  have nth: "segs ! i = exactSegment T L (L - ov) i" if "i < n" for i
    using that by (simp add: segs_def)
  have ne: "segs \<noteq> []" using npos len by auto
  have hd: "hd segs = exactSegment T L (L - ov) 0"
    using nth[of 0] npos ne by (simp add: hd_conv_nth)
  have lst: "last segs = exactSegment T L (L - ov) (n - 1)"
    using nth[of "n - 1"] npos ne len by (simp add: last_conv_nth)
  have first0: "seg_start (hd segs) = 0"
    by (simp add: hd exactSegment_def)
  have lastT: "seg_end (last segs) = roundFixed2 T"
    using last_planned_reaches[OF assms(1) assms(3) assms(4) n_def]
    by (simp add: lst exactSegment_def)
  have stride: "seg_start (segs ! Suc i) = seg_start (segs ! i) + (L - ov)"
    if i: "Suc i < n" for i
  proof -
    have i': "i < n" using i by simp
    show ?thesis
      by (simp add: nth[OF i] nth[OF i'] exactSegment_def algebra_simps)
  qed
  have "(2::rat) ^ 49 < 2 ^ 51" by simp
  then have Tb: "T < 2 ^ 51" using assms(7) by linarith
  have rT: "roundFixed2 T = T" if "quarter T"
    using that assms(1) Tb by (intro roundFixed2_quarter) simp_all
  have width: "seg_end (segs ! i) - seg_start (segs ! i) \<le> L"
    if c: "quarter T" and i: "i < n" for i
  proof (cases "of_nat i * (L - ov) + L \<le> T")
    case True
    have qe: "quarter (of_nat i * (L - ov) + L)"
      using assms(5,6) by (intro quarter_add quarter_mult_nat quarter_diff)
    have "0 \<le> of_nat i * (L - ov) + L" using st assms(2) by simp
    then have "roundFixed2 (of_nat i * (L - ov) + L) = of_nat i * (L - ov) + L"
      using qe True Tb by (intro roundFixed2_quarter) simp_all
    then show ?thesis using True i by (simp add: nth exactSegment_def min_def)
  next
    case False
    then show ?thesis using i rT[OF c] by (simp add: nth exactSegment_def min_def)
  qed
  have nth': "\<forall>i<length segs. segs ! i = exactSegment T L (L - ov) i"
    using nth len by simp
  have stride': "\<forall>i. Suc i < length segs \<longrightarrow>
              seg_start (segs ! Suc i) = seg_start (segs ! i) + (L - ov)"
    using stride len by simp
  have ws: "quarter T \<longrightarrow>
              seg_end (last segs) = T \<and>
              (\<forall>i<length segs. seg_end (segs ! i) - seg_start (segs ! i) \<le> L)"
    using width lastT rT len by simp
  show ?thesis
    by (intro exI[of _ segs] conjI plan ne first0 lastT nth' stride' ws)
qed

lemma quarter_numeral: "quarter (numeral k)"
  by (simp add: quarter_def)

text \<open>
  Claim C1, witness: the theorem at \<open>totalDuration = 95\<close>, \<open>segmentLength = 30\<close>,
  \<open>overlap = 5\<close>.
\<close>

theorem plan_shape_witness:
  "(0::rat) < 95 \<and> (0::rat) < 30 \<and> (0::rat) \<le> 5 \<and> (5::rat) < 30 \<and>
   quarter 30 \<and> quarter 5 \<and> (95::rat) \<le> 2 ^ 49 \<and> (30::rat) \<le> 2 ^ 49 \<and>
   (\<exists>segs. planSegments 95 30 5 = Some segs \<and> segs \<noteq> [] \<and>
           seg_start (hd segs) = 0 \<and>
           seg_end (last segs) = roundFixed2 95 \<and>
           (\<forall>i<length segs. segs ! i = exactSegment 95 30 (30 - 5) i) \<and>
           (\<forall>i. Suc i < length segs \<longrightarrow>
              seg_start (segs ! Suc i) = seg_start (segs ! i) + (30 - 5)) \<and>
           (quarter 95 \<longrightarrow>
              seg_end (last segs) = 95 \<and>
              (\<forall>i<length segs. seg_end (segs ! i) - seg_start (segs ! i) \<le> 30)))"
proof -
  have h: "(0::rat) < 95" "(0::rat) < 30" "(0::rat) \<le> 5" "(5::rat) < 30"
    "quarter 30" "quarter 5" "(95::rat) \<le> 2 ^ 49" "(30::rat) \<le> 2 ^ 49"
    by (simp_all add: quarter_numeral)
  show ?thesis by (intro conjI h plan_shape[OF h])
qed

text \<open>
  Claim C1 as stated fails on the reported plan: with \<open>totalDuration = 0.25\<close>,
  \<open>segmentLength = 0.125\<close> and no overlap, the first segment is reported as
  \<open>[0, 0.13]\<close>, longer than \<open>segmentLength\<close>, and the second start \<open>0.13\<close> is not
  \<open>0 + 0.125\<close>.
\<close>

theorem plan_shape_counterexample:
  "planSegments (1/4) (1/8) 0 =
      Some [\<lparr>seg_index = 0, seg_start = 0, seg_end = round64 (13/100)\<rparr>,
            \<lparr>seg_index = 1, seg_start = round64 (13/100), seg_end = 1/4\<rparr>]
   \<and> \<not> (round64 (13/100) - 0 \<le> 1/8)
   \<and> round64 (13/100) \<noteq> 0 + (1/8 - 0)"
  by (simp add: planSegments_def planLoop.simps roundFixed2_def float_defs)

text \<open>
  Claim C2, as the code has it. For valid inputs with segment length and overlap multiples
  of 0.25 and nothing above \<open>2^49\<close>, the planner emits
  \<open>ceil (totalDuration / (segmentLength - overlap))\<close> segments; without overlap this is the
  claimed \<open>ceil ((totalDuration - segmentLength) / (segmentLength - overlap)) + 1\<close> when
  \<open>totalDuration > segmentLength\<close> and 1 otherwise.
\<close>

theorem plan_count:
  assumes "0 < T" "0 < L" "0 \<le> ov" "ov < L"
    and "quarter L" "quarter ov" "T \<le> 2 ^ 49" "L \<le> 2 ^ 49"
  shows "\<exists>segs. planSegments T L ov = Some segs \<and>
           int (length segs) = \<lceil>T / (L - ov)\<rceil> \<and>
           (ov = 0 \<longrightarrow>
              int (length segs) = (if L < T then \<lceil>(T - L) / (L - ov)\<rceil> + 1 else 1))"
proof -
  have st: "0 < L - ov" using assms by simp
  have q: "0 < T / (L - ov)" using assms(1) st by simp
  have pos: "0 < \<lceil>T / (L - ov)\<rceil>" using q by simp
  define segs where "segs = map (exactSegment T L (L - ov)) [0..<nat \<lceil>T / (L - ov)\<rceil>]"
  have plan: "planSegments T L ov = Some segs"
    unfolding segs_def using assms by (intro planSegments_exact)
  have cnt: "int (length segs) = \<lceil>T / (L - ov)\<rceil>"
    unfolding segs_def using pos by simp
  have a: "\<lceil>T / L\<rceil> = \<lceil>(T - L) / L\<rceil> + 1"
  proof -
    have "(T - L) / L = T / L - 1" using assms by (simp add: diff_divide_distrib)
    then show ?thesis by simp
  qed
  have b: "\<lceil>T / L\<rceil> = 1" if "\<not> L < T"
  proof -
    have "T / L \<le> 1" "0 < T / L" using that assms by simp_all
    then show ?thesis by (simp add: ceiling_eq_iff)
  qed
  have c: "int (length segs) = (if L < T then \<lceil>(T - L) / (L - ov)\<rceil> + 1 else 1)" if "ov = 0"
  proof (cases "L < T")
    case True
    then show ?thesis using cnt a that by simp
  next
    case False
    then show ?thesis using cnt b that by simp
  qed
  have c': "ov = 0 \<longrightarrow>
              int (length segs) = (if L < T then \<lceil>(T - L) / (L - ov)\<rceil> + 1 else 1)"
    using c by simp
  show ?thesis by (intro exI[of _ segs] conjI plan cnt c')
qed

text \<open>
  Claim C2, witness: the theorem at \<open>totalDuration = 95\<close>, \<open>segmentLength = 30\<close>,
  \<open>overlap = 0\<close>.
\<close>

theorem plan_count_witness:
  "(0::rat) < 95 \<and> (0::rat) < 30 \<and> (0::rat) \<le> 0 \<and> (0::rat) < 30 \<and>
   quarter 30 \<and> quarter 0 \<and> (95::rat) \<le> 2 ^ 49 \<and> (30::rat) \<le> 2 ^ 49 \<and>
   (\<exists>segs. planSegments 95 30 0 = Some segs \<and>
           int (length segs) = \<lceil>(95::rat) / (30 - 0)\<rceil> \<and>
           ((0::rat) = 0 \<longrightarrow>
              int (length segs) = (if (30::rat) < 95 then \<lceil>((95::rat) - 30) / (30 - 0)\<rceil> + 1 else 1)))"
proof -
  have h: "(0::rat) < 95" "(0::rat) < 30" "(0::rat) \<le> 0" "(0::rat) < 30"
    "quarter 30" "quarter 0" "(95::rat) \<le> 2 ^ 49" "(30::rat) \<le> 2 ^ 49"
    by (simp_all add: quarter_numeral quarter_zero)
  show ?thesis by (intro conjI h plan_count[OF h])
qed

text \<open>
  Claim C2 as stated fails with an overlap: \<open>totalDuration = 31\<close>, \<open>segmentLength = 30\<close>,
  \<open>overlap = 20\<close> give four segments, where the claimed formula gives two.
\<close>

theorem plan_count_counterexample:
  "planSegments 31 30 20 =
      Some [\<lparr>seg_index = 0, seg_start = 0, seg_end = 30\<rparr>,
            \<lparr>seg_index = 1, seg_start = 10, seg_end = 31\<rparr>,
            \<lparr>seg_index = 2, seg_start = 20, seg_end = 31\<rparr>,
            \<lparr>seg_index = 3, seg_start = 30, seg_end = 31\<rparr>]
   \<and> (30::rat) < 31
   \<and> \<lceil>((31::rat) - 30) / (30 - 20)\<rceil> + 1 = 2"
  by (simp add: planSegments_def planLoop.simps roundFixed2_def float_defs)

text \<open>
  Off that grid the sums of doubles are not exact. Ten steps of 0.1 stay below 1, so an
  eleventh, empty segment is planned; with 89.7, 30 and 0.1 a fourth, empty segment is
  planned; and the probed \<open>00:01:08.04\<close> is a double below 68.04, reported as 68.04.
\<close>

lemma binary64_tenth_steps:
  "map_option length (planSegments 1 (round64 (1/10)) 0) = Some 11
   \<and> map_option last (planSegments 1 (round64 (1/10)) 0) =
       Some \<lparr>seg_index = 10, seg_start = 1, seg_end = 1\<rparr>"
  by (simp add: planSegments_def planLoop.simps roundFixed2_def float_defs)

lemma binary64_trailing_segment:
  "map_option length (planSegments (round64 (897/10)) 30 (round64 (1/10))) = Some 4
   \<and> map_option last (planSegments (round64 (897/10)) 30 (round64 (1/10))) =
       Some \<lparr>seg_index = 3, seg_start = round64 (897/10), seg_end = round64 (897/10)\<rparr>"
  by (simp add: planSegments_def planLoop.simps roundFixed2_def float_defs)

lemma binary64_probe_sum:
  "totalDurationOf (''00'', ''01'', ''08.04'') = fadd 60 (round64 (804/100))
   \<and> totalDurationOf (''00'', ''01'', ''08.04'') < round64 (6804/100)
   \<and> roundFixed2 (totalDurationOf (''00'', ''01'', ''08.04'')) = round64 (6804/100)"
  by (simp add: totalDurationOf_def parseFloat_def parseDigits_def digitVal_def isDigit_def
        roundFixed2_def float_defs)

lemma planLoop_returns:
  assumes "planLoop T L step (currentStartAt step k) k acc = Some segs"
  shows "\<exists>n. segs = acc @ map (plannedSegment T L step) [k..<n]"
proof -
  have "\<forall>k. c = currentStartAt st k \<and> i = k \<longrightarrow>
           (\<exists>n. y = a @ map (plannedSegment T' L' st) [k..<n])"
    if "planLoop T' L' st c i a = Some y" for T' L' st c i a y
  proof (rule planLoop.raw_induct[where P = "\<lambda>T' L' st c i a y. \<forall>k. c = currentStartAt st k \<and> i = k \<longrightarrow>
           (\<exists>n. y = a @ map (plannedSegment T' L' st) [k..<n])", OF _ that])
    fix f T' L' st c i a y
    assume IH: "\<And>T' L' st c i a y. f T' L' st c i a = Some y \<Longrightarrow>
                  \<forall>k. c = currentStartAt st k \<and> i = k \<longrightarrow>
                    (\<exists>n. y = a @ map (plannedSegment T' L' st) [k..<n])"
      and eq: "(if c < T' then f T' L' st (fadd c st) (i + 1)
                   (a @ [\<lparr>seg_index = i, seg_start = roundFixed2 c,
                          seg_end = roundFixed2 (min (fadd c L') T')\<rparr>])
                else Some a) = Some y"
    show "\<forall>k. c = currentStartAt st k \<and> i = k \<longrightarrow>
             (\<exists>n. y = a @ map (plannedSegment T' L' st) [k..<n])"
    proof (intro allI impI)
      fix k
      assume ck: "c = currentStartAt st k \<and> i = k"
      show "\<exists>n. y = a @ map (plannedSegment T' L' st) [k..<n]"
      proof (cases "c < T'")
        case False
        then have "y = a" using eq by simp
        then show ?thesis by (intro exI[of _ k]) simp
      next
        case True
        let ?sg = "\<lparr>seg_index = i, seg_start = roundFixed2 c,
                          seg_end = roundFixed2 (min (fadd c L') T')\<rparr>"
        have sg: "?sg = plannedSegment T' L' st k" using ck by (simp add: plannedSegment_def)
        have rec: "f T' L' st (fadd c st) (i + 1) (a @ [?sg]) = Some y" using eq True by simp
        have "fadd c st = currentStartAt st (Suc k) \<and> i + 1 = Suc k" using ck by simp
        then obtain n where n: "y = (a @ [?sg]) @ map (plannedSegment T' L' st) [Suc k..<n]"
          using IH[OF rec] by blast
        show ?thesis
        proof (cases "Suc k \<le> n")
          case True
          then have "[k..<n] = k # [Suc k..<n]" by (simp add: upt_conv_Cons)
          then show ?thesis using n sg by (intro exI[of _ n]) simp
        next
          case False
          then have "[Suc k..<n] = []" by simp
          then show ?thesis using n sg by (intro exI[of _ "Suc k"]) simp
        qed
      qed
    qed
  qed
  then show ?thesis using assms by blast
qed

lemma planSegments_returns:
  assumes "planSegments T L ov = Some segs"
  shows "segs = map (plannedSegment T L (fsub L ov)) [0..<length segs]"
proof -
  have "planLoop T L (fsub L ov) (currentStartAt (fsub L ov) 0) 0 [] = Some segs"
    using assms by (simp add: planSegments_def)
  then obtain n where n: "segs = [] @ map (plannedSegment T L (fsub L ov)) [0..<n]"
    using planLoop_returns by blast
  then have "length segs = n" by simp
  then show ?thesis using n by simp
qed

section \<open>The effects of one record\<close>

lemma isUnlink_map_Unlink: "filter isUnlink (map Unlink ps) = map Unlink ps"
  by (induction ps) auto

lemma createdPaths_append: "createdPaths (xs @ ys) = createdPaths xs @ createdPaths ys"
  by (induction xs rule: createdPaths.induct) auto

lemma segmentEvents_Nil: "segmentEvents inp [] outs = []"
  by (simp add: segmentEvents_def)

lemma segmentEvents_Cons:
  "segmentEvents inp (sg # segs) (p # outs) =
     ExtractExec inp (seg_start sg) (fsub (seg_end sg) (seg_start sg)) p # ReadFile p
       # segmentEvents inp segs outs"
  by (simp add: segmentEvents_def)

lemmas effect_defs = writeFile_def execProbe_def execExtract_def readFile_def unlink_def
  dateNowCall_def logEvent_def

lemma extractSegments_success:
  assumes "extractSegments en i pn bd ext inp segs bo ps w = (Inr bo', ps', w')"
  shows "\<exists>outs. ps' = ps @ outs \<and> length outs = length segs \<and>
           trace w' = trace w @ segmentEvents inp segs outs \<and>
           files w' = files w \<union> set outs"
  using assms
proof (induction segs arbitrary: bo ps w)
  case Nil
  then show ?case by (simp add: segmentEvents_Nil)
next
  case (Cons sg segs)
  define p where "p = SegmentOutputPath (dateNow en (ticks w)) i (seg_index sg) ext"
  define w1 where "w1 = w\<lparr>ticks := ticks w + 1\<rparr>"
  obtain r2 w2 where ex: "execExtract en inp (seg_start sg) (fsub (seg_end sg) (seg_start sg)) p w1 = (r2, w2)"
    by (cases "execExtract en inp (seg_start sg) (fsub (seg_end sg) (seg_start sg)) p w1")
  obtain r3 w3 where rd: "readFile en p w2 = (r3, w3)" by (cases "readFile en p w2")
  obtain u buf bo1 where
    r2: "r2 = Inr u" and r3: "r3 = Inr buf"
    and rec: "extractSegments en i pn bd ext inp segs bo1 (ps @ [p]) w3 = (Inr bo', ps', w')"
    using Cons.prems ex rd by (auto simp: dateNowCall_def p_def w1_def Let_def split: sum.splits)
  obtain outs where
    outs: "ps' = (ps @ [p]) @ outs" "length outs = length segs"
      "trace w' = trace w3 @ segmentEvents inp segs outs"
      "files w' = files w3 \<union> set outs" using Cons.IH[OF rec] by blast
  have t3: "trace w3 = trace w @ [ExtractExec inp (seg_start sg) (fsub (seg_end sg) (seg_start sg)) p, ReadFile p]"
    and f3: "files w3 = insert p (files w)"
    using ex rd r2 r3
    by (auto simp: effect_defs w1_def split: option.splits prod.splits)
  show ?case
    using outs t3 f3
    by (intro exI[of _ "p # outs"]) (auto simp: segmentEvents_Cons)
qed

lemma extractSegments_any:
  assumes "extractSegments en i pn bd ext inp segs bo ps w = (r, ps', w')"
  shows "\<exists>outs evs. ps' = ps @ outs \<and> trace w' = trace w @ evs \<and>
           filter isUnlink evs = [] \<and> set (createdPaths evs) \<subseteq> set outs \<and>
           files w \<subseteq> files w' \<and> files w' \<subseteq> files w \<union> set outs"
  using assms
proof (induction segs arbitrary: bo ps w)
  case Nil
  then show ?case by simp
next
  case (Cons sg segs)
  define p where "p = SegmentOutputPath (dateNow en (ticks w)) i (seg_index sg) ext"
  define w1 where "w1 = w\<lparr>ticks := ticks w + 1\<rparr>"
  define ev where "ev = ExtractExec inp (seg_start sg) (fsub (seg_end sg) (seg_start sg)) p"
  obtain r2 w2 where ex: "execExtract en inp (seg_start sg) (fsub (seg_end sg) (seg_start sg)) p w1 = (r2, w2)"
    by (cases "execExtract en inp (seg_start sg) (fsub (seg_end sg) (seg_start sg)) p w1")
  obtain r3 w3 where rd: "readFile en p w2 = (r3, w3)" by (cases "readFile en p w2")
  have t2: "trace w2 = trace w @ [ev]" and f2: "files w \<subseteq> files w2" "files w2 \<subseteq> insert p (files w)"
    using ex by (auto simp: effect_defs w1_def ev_def split: option.splits prod.splits if_splits)
  have t3: "trace w3 = trace w2 @ [ReadFile p]" and f3: "files w3 = files w2"
    using rd by (auto simp: effect_defs)
  show ?case
  proof (cases r2)
    case (Inl e)
    then have "ps' = ps @ [p]" "w' = w2"
      using Cons.prems ex by (auto simp: dateNowCall_def p_def w1_def Let_def)
    then show ?thesis using t2 f2
      by (intro exI[of _ "[p]"] exI[of _ "[ev]"]) (auto simp: ev_def)
  next
    case r2: (Inr u)
    show ?thesis
    proof (cases r3)
      case (Inl e)
      then have "ps' = ps @ [p]" "w' = w3"
        using Cons.prems ex rd r2 by (auto simp: dateNowCall_def p_def w1_def Let_def)
      then show ?thesis using t2 f2 t3 f3
        by (intro exI[of _ "[p]"] exI[of _ "[ev, ReadFile p]"]) (auto simp: ev_def)
    next
      case (Inr buf)
      then obtain bo1 where
        rec: "extractSegments en i pn bd ext inp segs bo1 (ps @ [p]) w3 = (r, ps', w')"
        using Cons.prems ex rd r2 by (auto simp: dateNowCall_def p_def w1_def Let_def)
      obtain outs evs where
        o: "ps' = (ps @ [p]) @ outs" "trace w' = trace w3 @ evs" "filter isUnlink evs = []"
          "set (createdPaths evs) \<subseteq> set outs" "files w3 \<subseteq> files w'"
          "files w' \<subseteq> files w3 \<union> set outs" using Cons.IH[OF rec] by blast
      show ?thesis
        using o t2 f2 t3 f3
        by (intro exI[of _ "p # outs"] exI[of _ "ev # ReadFile p # evs"])
           (auto simp: ev_def)
    qed
  qed
qed

lemma unlinkAll_trace: "trace (unlinkAll en ps w) = trace w @ map Unlink ps"
  unfolding unlinkAll_def
  by (induction ps arbitrary: w) (auto simp: unlink_def logEvent_def)

lemma unlinkAll_ticks: "ticks (unlinkAll en ps w) = ticks w"
  unfolding unlinkAll_def
  by (induction ps arbitrary: w) (auto simp: unlink_def logEvent_def)

lemma unlinkAll_files:
  assumes "\<forall>w p. unlinkResult en w p"
  shows "files (unlinkAll en ps w) = files w - set ps"
  unfolding unlinkAll_def using assms
  by (induction ps arbitrary: w) (auto simp: unlink_def logEvent_def)

lemma unlink_one_trace: "trace (unlink en p w) = trace w @ [Unlink p]"
  by (simp add: unlink_def logEvent_def)

lemma unlink_one_files:
  assumes "\<forall>w p. unlinkResult en w p"
  shows "files (unlink en p w) = files w - {p}"
  using assms by (simp add: unlink_def logEvent_def)

lemma planAndExtract_run:
  assumes "planAndExtract en i it bd ext inp w = Some (r, w')"
  shows "\<exists>work ps. trace w' = trace w @ work @ map Unlink ps \<and>
           filter isUnlink work = [] \<and> set (createdPaths work) \<subseteq> set ps \<and>
           ((\<forall>w p. unlinkResult en w p) \<longrightarrow> files w' = files w - set ps)"
proof -
  define w1 where "w1 = logEvent (ProbeExec inp) w"
  have t1: "trace w1 = trace w @ [ProbeExec inp]" and f1: "files w1 = files w"
    by (simp_all add: w1_def logEvent_def)
  have simple: ?thesis if "w' = w1"
    using that t1 f1 by (intro exI[of _ "[ProbeExec inp]"] exI[of _ "[]"]) simp
  show ?thesis
  proof (cases "probeResult en w inp")
    case (Inl e)
    then have "w' = w1" using assms by (simp add: planAndExtract_def execProbe_def w1_def)
    then show ?thesis by (rule simple)
  next
    case pr: (Inr stdout)
    show ?thesis
    proof (cases "durationMatch stdout")
      case None
      then have "w' = w1" using assms pr by (simp add: planAndExtract_def execProbe_def w1_def)
      then show ?thesis by (rule simple)
    next
      case dm: (Some m)
      show ?thesis
      proof (cases "planSegments (totalDurationOf m) (segmentLength it) (overlap it)")
        case None
        then show ?thesis using assms pr dm by (simp add: planAndExtract_def execProbe_def)
      next
        case pl: (Some segs)
        show ?thesis
        proof (cases "case outputSegments it of None \<Rightarrow> False | Some b \<Rightarrow> b")
          case False
          then have "w' = w1" using assms pr dm pl
            by (simp add: planAndExtract_def execProbe_def w1_def Let_def)
          then show ?thesis by (rule simple)
        next
          case True
          obtain r2 ps w2 where
            ex: "extractSegments en i (binaryPropertyName it) bd ext inp segs [] [] w1 = (r2, ps, w2)"
            by (cases "extractSegments en i (binaryPropertyName it) bd ext inp segs [] [] w1") auto
          have w': "w' = unlinkAll en ps w2"
            using assms pr dm pl True ex
            by (auto simp: planAndExtract_def execProbe_def w1_def[symmetric] Let_def split: sum.splits)
          obtain outs evs where
            o: "ps = [] @ outs" "trace w2 = trace w1 @ evs" "filter isUnlink evs = []"
               "set (createdPaths evs) \<subseteq> set outs" "files w1 \<subseteq> files w2"
               "files w2 \<subseteq> files w1 \<union> set outs" using extractSegments_any[OF ex] by blast
          have tr: "trace w' = trace w @ (ProbeExec inp # evs) @ map Unlink ps"
            using o t1 by (simp add: w' unlinkAll_trace)
          have fl: "files w' = files w - set ps" if "\<forall>w p. unlinkResult en w p"
            using o f1 unlinkAll_files[OF that, of ps w2] by (auto simp: w')
          show ?thesis
            using tr fl o
            by (intro exI[of _ "ProbeExec inp # evs"] exI[of _ ps]) auto
        qed
      qed
    qed
  qed
qed

lemma calculateSegments_run:
  assumes "calculateSegments en i it bd w = Some (r, w')"
  shows "\<exists>work ps. trace w' = trace w @ work @ map Unlink ps \<and>
           filter isUnlink work = [] \<and>
           ((\<forall>w p. writeFileResult en w p = WriteOk) \<longrightarrow> set (createdPaths work) \<subseteq> set ps) \<and>
           ((\<forall>w p e. writeFileResult en w p \<noteq> WriteFailed e True) \<and> (\<forall>w p. unlinkResult en w p)
              \<longrightarrow> files w' = files w - set ps)"
proof -
  let ?ext = "orDefault (fileExtension bd) ''m4a''"
  obtain n1 w0 where d1: "dateNowCall en w = (n1, w0)" by (cases "dateNowCall en w")
  have w0: "trace w0 = trace w" "files w0 = files w"
    using d1 by (auto simp: dateNowCall_def)
  let ?inp = "InputPath n1 i ?ext"
  obtain r1 w1 where wr: "writeFile en ?inp (buffer bd) w0 = (r1, w1)"
    by (cases "writeFile en ?inp (buffer bd) w0")
  have t1: "trace w1 = trace w @ [WriteFile ?inp]"
    using wr w0 by (auto simp: writeFile_def logEvent_def split: writeResult.splits)
  have unf: "calculateSegments en i it bd w =
      (case (r1, w1) of
           (Inl e, w1) \<Rightarrow> Some (Inl e, w1)
         | (Inr u, w1) \<Rightarrow>
             (case planAndExtract en i it bd ?ext ?inp w1 of
                None \<Rightarrow> None
              | Some (r, w2) \<Rightarrow> Some (r, unlink en ?inp w2)))"
    by (simp add: calculateSegments_def Let_def d1 wr)
  show ?thesis
  proof (cases r1)
    case (Inl e)
    then have w': "w' = w1"
      using assms unf by simp
    have nok: "writeFileResult en w0 ?inp \<noteq> WriteOk"
      using wr Inl by (auto simp: writeFile_def split: writeResult.splits)
    have fl: "files w' = files w" if "\<forall>w p e. writeFileResult en w p \<noteq> WriteFailed e True"
      using wr Inl that w0 unfolding w'
      by (auto simp: writeFile_def logEvent_def split: writeResult.splits if_splits)
    show ?thesis
      using t1 nok fl unfolding w'
      by (intro exI[of _ "[WriteFile ?inp]"] exI[of _ "[]"]) auto
  next
    case (Inr u)
    then have f1: "files w1 = insert ?inp (files w)"
      using wr w0 by (auto simp: writeFile_def logEvent_def split: writeResult.splits)
    obtain w2 where
      pe: "planAndExtract en i it bd ?ext ?inp w1 = Some (r, w2)" and w': "w' = unlink en ?inp w2"
      using assms unf Inr by (auto split: option.splits)
    obtain work ps where
      o: "trace w2 = trace w1 @ work @ map Unlink ps" "filter isUnlink work = []"
         "set (createdPaths work) \<subseteq> set ps"
         "(\<forall>w p. unlinkResult en w p) \<longrightarrow> files w2 = files w1 - set ps" using planAndExtract_run[OF pe] by blast
    have tr: "trace w' = trace w @ (WriteFile ?inp # work) @ map Unlink (ps @ [?inp])"
      using o t1 by (simp add: w' unlink_one_trace)
    have fl: "files w' = files w - set (ps @ [?inp])" if "\<forall>w p. unlinkResult en w p"
      using o f1 that unlink_one_files[OF that, of ?inp w2] by (auto simp: w')
    show ?thesis
      using tr fl o
      by (intro exI[of _ "WriteFile ?inp # work"] exI[of _ "ps @ [?inp]"]) auto
  qed
qed

lemma extractSegment_run:
  assumes "extractSegment en i it bd w = (r, w')"
  shows "\<exists>work ps. trace w' = trace w @ work @ map Unlink ps \<and>
           filter isUnlink work = [] \<and>
           ((\<forall>w p. writeFileResult en w p = WriteOk) \<longrightarrow> set (createdPaths work) \<subseteq> set ps) \<and>
           ((\<forall>w p e. writeFileResult en w p \<noteq> WriteFailed e True) \<and> (\<forall>w p. unlinkResult en w p)
              \<longrightarrow> files w' = files w - set ps)"
proof (cases "endTime it \<le> startTime it")
  case True
  then have "w' = w" using assms by (simp add: extractSegment_def)
  then show ?thesis by (intro exI[of _ "[]"]) simp
next
  case False
  let ?ext = "orDefault (fileExtension bd) ''m4a''"
  obtain n1 wa where d1: "dateNowCall en w = (n1, wa)" by (cases "dateNowCall en w")
  obtain n2 w0 where d2: "dateNowCall en wa = (n2, w0)" by (cases "dateNowCall en wa")
  have w0: "trace w0 = trace w" "files w0 = files w"
    using d1 d2 by (auto simp: dateNowCall_def)
  let ?inp = "InputPath n1 i ?ext"
  let ?outp = "OutputPath n2 i ?ext"
  let ?ev = "ExtractExec ?inp (startTime it) (fsub (endTime it) (startTime it)) ?outp"
  obtain r1 w1 where wr: "writeFile en ?inp (buffer bd) w0 = (r1, w1)"
    by (cases "writeFile en ?inp (buffer bd) w0")
  have t1: "trace w1 = trace w @ [WriteFile ?inp]"
    using wr w0 by (auto simp: writeFile_def logEvent_def split: writeResult.splits)
  have unf: "extractSegment en i it bd w =
      (case (r1, w1) of
         (Inl e, w3) \<Rightarrow> (Inl e, w3)
       | (Inr u, w3) \<Rightarrow>
           (case extractAndRead en i it bd ?ext ?inp ?outp w3 of
              (r, w4) \<Rightarrow> (r, unlink en ?outp (unlink en ?inp w4))))"
    using False by (simp add: extractSegment_def Let_def d1 d2 wr)
  show ?thesis
  proof (cases r1)
    case (Inl e)
    then have w': "w' = w1" using assms unf by simp
    have nok: "writeFileResult en w0 ?inp \<noteq> WriteOk"
      using wr Inl by (auto simp: writeFile_def split: writeResult.splits)
    have fl: "files w' = files w" if "\<forall>w p e. writeFileResult en w p \<noteq> WriteFailed e True"
      using wr Inl that w0 unfolding w'
      by (auto simp: writeFile_def logEvent_def split: writeResult.splits if_splits)
    show ?thesis
      using t1 nok fl unfolding w'
      by (intro exI[of _ "[WriteFile ?inp]"] exI[of _ "[]"]) auto
  next
    case (Inr u)
    then have f1: "files w1 = insert ?inp (files w)"
      using wr w0 by (auto simp: writeFile_def logEvent_def split: writeResult.splits)
    obtain r4 w4 where ea: "extractAndRead en i it bd ?ext ?inp ?outp w1 = (r4, w4)"
      by (cases "extractAndRead en i it bd ?ext ?inp ?outp w1")
    have w': "w' = unlink en ?outp (unlink en ?inp w4)"
      using assms unf Inr ea by simp
    have "\<exists>evs. trace w4 = trace w1 @ ?ev # evs \<and> filter isUnlink evs = [] \<and>
             createdPaths evs = [] \<and> files w1 \<subseteq> files w4 \<and> files w4 \<subseteq> insert ?outp (files w1)"
      using ea
      by (auto simp: extractAndRead_def execExtract_def readFile_def logEvent_def Let_def
               split: option.splits prod.splits sum.splits if_splits)
    then obtain evs where
      o: "trace w4 = trace w1 @ ?ev # evs" "filter isUnlink evs = []" "createdPaths evs = []"
         "files w1 \<subseteq> files w4" "files w4 \<subseteq> insert ?outp (files w1)" by blast
    have tr: "trace w' = trace w @ (WriteFile ?inp # ?ev # evs) @ map Unlink [?inp, ?outp]"
      using o t1 by (simp add: w' unlink_one_trace)
    have fl: "files w' = files w - set [?inp, ?outp]" if "\<forall>w p. unlinkResult en w p"
      using o f1 that unlink_one_files[OF that] by (auto simp: w')
    show ?thesis
      using tr fl o
      by (intro exI[of _ "WriteFile ?inp # ?ev # evs"] exI[of _ "[?inp, ?outp]"]) auto
  qed
qed

lemma processItem_run:
  assumes "processItem en operation i it w = Some (r, w')"
  shows "\<exists>work ps. trace w' = trace w @ work @ map Unlink ps \<and>
           filter isUnlink work = [] \<and>
           ((\<forall>w p. writeFileResult en w p = WriteOk) \<longrightarrow> set (createdPaths work) \<subseteq> set ps) \<and>
           ((\<forall>w p e. writeFileResult en w p \<noteq> WriteFailed e True) \<and> (\<forall>w p. unlinkResult en w p)
              \<longrightarrow> files w' = files w - set ps)"
proof (cases "map_of (binary it) (binaryPropertyName it)")
  case None
  then have "w' = w" using assms by (simp add: processItem_def)
  then show ?thesis by (intro exI[of _ "[]"]) simp
next
  case (Some bd)
  consider (calc) "operation = ''calculateSegments''"
    | (extr) "operation \<noteq> ''calculateSegments''" "operation = ''extractSegment''"
    | (other) "operation \<noteq> ''calculateSegments''" "operation \<noteq> ''extractSegment''" by blast
  then show ?thesis
  proof cases
    case calc
    then obtain r1 where "calculateSegments en i it bd w = Some (r1, w')"
      using assms Some by (auto simp: processItem_def split: option.splits sum.splits)
    then show ?thesis by (rule calculateSegments_run)
  next
    case extr
    then obtain r1 where "extractSegment en i it bd w = (r1, w')"
      using assms Some by (auto simp: processItem_def split: prod.splits sum.splits)
    then show ?thesis by (rule extractSegment_run)
  next
    case other
    then have "w' = w" using assms Some by (simp add: processItem_def)
    then show ?thesis by (intro exI[of _ "[]"]) simp
  qed
qed

lemma execExtract_unlink_irrelevant:
  "execExtract (en\<lparr>unlinkResult := u\<rparr>) inp s d p w = execExtract en inp s d p w"
  by (simp add: execExtract_def)

lemma readFile_unlink_irrelevant:
  "readFile (en\<lparr>unlinkResult := u\<rparr>) p w = readFile en p w"
  by (simp add: readFile_def)

lemma writeFile_unlink_irrelevant:
  "writeFile (en\<lparr>unlinkResult := u\<rparr>) p b w = writeFile en p b w"
  by (simp add: writeFile_def)

lemma execProbe_unlink_irrelevant:
  "execProbe (en\<lparr>unlinkResult := u\<rparr>) p w = execProbe en p w"
  by (simp add: execProbe_def)

lemma dateNowCall_unlink_irrelevant:
  "dateNowCall (en\<lparr>unlinkResult := u\<rparr>) w = dateNowCall en w"
  by (simp add: dateNowCall_def)

lemma generatedFilename_unlink_irrelevant:
  "generatedFilename (en\<lparr>unlinkResult := u\<rparr>) bd s e ext = generatedFilename en bd s e ext"
  by (simp add: generatedFilename_def)

lemma outputFilename_unlink_irrelevant:
  "outputFilename (en\<lparr>unlinkResult := u\<rparr>) c bd s e ext = outputFilename en c bd s e ext"
  by (simp add: outputFilename_def generatedFilename_def Let_def)

lemmas unlink_irrelevant = execExtract_unlink_irrelevant readFile_unlink_irrelevant
  writeFile_unlink_irrelevant execProbe_unlink_irrelevant dateNowCall_unlink_irrelevant
  generatedFilename_unlink_irrelevant outputFilename_unlink_irrelevant

lemma extractSegments_unlink_irrelevant:
  "extractSegments (en\<lparr>unlinkResult := u\<rparr>) i pn bd ext inp segs bo ps w =
   extractSegments en i pn bd ext inp segs bo ps w"
proof (induction segs arbitrary: bo ps w)
  case Nil
  show ?case by simp
next
  case (Cons sg segs)
  show ?case
    by (simp add: unlink_irrelevant Let_def Cons.IH split: prod.splits sum.splits)
qed

lemma planAndExtract_unlink_irrelevant:
  "map_option fst (planAndExtract (en\<lparr>unlinkResult := u\<rparr>) i it bd ext inp w) =
   map_option fst (planAndExtract en i it bd ext inp w)"
  by (simp add: planAndExtract_def unlink_irrelevant extractSegments_unlink_irrelevant Let_def
           split: prod.splits sum.splits option.splits)

lemma map_option_fst_cases:
  assumes "map_option fst a = map_option fst b"
  shows "(a = None \<and> b = None) \<or> (\<exists>r wa wb. a = Some (r, wa) \<and> b = Some (r, wb))"
  using assms by (cases a; cases b) auto

lemma calculateSegments_unlink_irrelevant:
  "map_option fst (calculateSegments (en\<lparr>unlinkResult := u\<rparr>) i it bd w) =
   map_option fst (calculateSegments en i it bd w)"
proof -
  let ?ext = "orDefault (fileExtension bd) ''m4a''"
  obtain n1 w0 where d1: "dateNowCall en w = (n1, w0)" by (cases "dateNowCall en w")
  obtain r1 w1 where wr: "writeFile en (InputPath n1 i ?ext) (buffer bd) w0 = (r1, w1)"
    by (cases "writeFile en (InputPath n1 i ?ext) (buffer bd) w0")
  show ?thesis
  proof (cases r1)
    case (Inl e)
    then show ?thesis
      by (simp add: calculateSegments_def unlink_irrelevant Let_def d1 wr)
  next
    case (Inr x)
    show ?thesis
      using map_option_fst_cases[OF planAndExtract_unlink_irrelevant[of u en i it bd ?ext "InputPath n1 i ?ext" w1]] Inr by (auto simp: calculateSegments_def unlink_irrelevant Let_def d1 wr)
  qed
qed

lemma extractAndRead_unlink_irrelevant:
  "extractAndRead (en\<lparr>unlinkResult := u\<rparr>) i it bd ext inp outp w =
   extractAndRead en i it bd ext inp outp w"
  by (simp add: extractAndRead_def unlink_irrelevant Let_def split: prod.splits sum.splits)

lemma extractSegment_unlink_irrelevant:
  "fst (extractSegment (en\<lparr>unlinkResult := u\<rparr>) i it bd w) = fst (extractSegment en i it bd w)"
  by (simp add: extractSegment_def unlink_irrelevant extractAndRead_unlink_irrelevant Let_def
           split: prod.splits sum.splits)

lemma processItem_unlink_irrelevant:
  "map_option fst (processItem (en\<lparr>unlinkResult := u\<rparr>) operation i it w) =
   map_option fst (processItem en operation i it w)"
proof (cases "map_of (binary it) (binaryPropertyName it)")
  case None
  then show ?thesis by (simp add: processItem_def)
next
  case (Some bd)
  have c: "map_option fst
             (case calculateSegments (en\<lparr>unlinkResult := u\<rparr>) i it bd w of
                None \<Rightarrow> None
              | Some (Inl e, w1) \<Rightarrow> Some (Inl e, w1)
              | Some (Inr r, w1) \<Rightarrow> Some (Inr [r], w1)) =
           map_option fst
             (case calculateSegments en i it bd w of
                None \<Rightarrow> None
              | Some (Inl e, w1) \<Rightarrow> Some (Inl e, w1)
              | Some (Inr r, w1) \<Rightarrow> Some (Inr [r], w1))"
    using map_option_fst_cases[OF calculateSegments_unlink_irrelevant[of u en i it bd w]]
    by (auto split: sum.splits)
  obtain ra wa where a: "extractSegment (en\<lparr>unlinkResult := u\<rparr>) i it bd w = (ra, wa)"
    by (cases "extractSegment (en\<lparr>unlinkResult := u\<rparr>) i it bd w")
  obtain rb wb where b: "extractSegment en i it bd w = (rb, wb)"
    by (cases "extractSegment en i it bd w")
  have "ra = rb" using extractSegment_unlink_irrelevant[of u en i it bd w] a b by simp
  then have e: "map_option fst
             (case extractSegment (en\<lparr>unlinkResult := u\<rparr>) i it bd w of
                (Inl e, w1) \<Rightarrow> Some (Inl e, w1)
              | (Inr r, w1) \<Rightarrow> Some (Inr [r], w1)) =
           map_option fst
             (case extractSegment en i it bd w of
                (Inl e, w1) \<Rightarrow> Some (Inl e, w1)
              | (Inr r, w1) \<Rightarrow> Some (Inr [r], w1))"
    by (simp add: a b split: sum.splits)
  show ?thesis
    using c e Some by (simp add: processItem_def)
qed

section \<open>Batch extraction\<close>

lemmas run_defs = processItem_def calculateSegments_def planAndExtract_def extractSegment_def
  extractAndRead_def writeFile_def execProbe_def execExtract_def readFile_def unlink_def
  unlinkAll_def dateNowCall_def logEvent_def orDefault_def sampleEnv_def sampleItem_def
  emptyWorld_def planSegments_def totalDurationOf_def parseFloat_def parseDigits_def
  digitVal_def isDigit_def matchDurationAt_def Let_def planLoop.simps roundFixed2_def
  round64_def ilog2_def pow2_def roundHalfEven_def fadd_def fsub_def fmul_def bitLength.simps
  generatedFilename_def outputFilename_def showNumber_def showNat.simps stuckFilesEnv_def
  minuteProbe_def batchItem_def batchRecord_def batchWorld_def extractRecord_def extractWorld_def
  overlapItem_def overlapRecord_def overlapWorld_def quarterSecondProbe_def

lemma calculate_success_cases:
  assumes run: "processItem en ''calculateSegments'' i it w = Some (Inr [r], w')"
  obtains bd n1 w0 w1 stdout m segs where
    "map_of (binary it) (binaryPropertyName it) = Some bd"
    "dateNowCall en w = (n1, w0)"
    "writeFile en (InputPath n1 i (orDefault (fileExtension bd) ''m4a'')) (buffer bd) w0 = (Inr (), w1)"
    "probeResult en w1 (InputPath n1 i (orDefault (fileExtension bd) ''m4a'')) = Inr stdout"
    "durationMatch stdout = Some m"
    "planSegments (totalDurationOf m) (segmentLength it) (overlap it) = Some segs"
    "planAndExtract en i it bd (orDefault (fileExtension bd) ''m4a'')
        (InputPath n1 i (orDefault (fileExtension bd) ''m4a'')) w1 =
       (let summary = PlanSummary (totalDurationOf m) (segmentLength it) (overlap it)
                        (length segs) segs;
            w2 = logEvent (ProbeExec (InputPath n1 i (orDefault (fileExtension bd) ''m4a''))) w1
        in if (case outputSegments it of None \<Rightarrow> False | Some b \<Rightarrow> b) then
             (case extractSegments en i (binaryPropertyName it) bd
                     (orDefault (fileExtension bd) ''m4a'')
                     (InputPath n1 i (orDefault (fileExtension bd) ''m4a'')) segs [] [] w2 of
                (Inl e, tempOutputPaths, w3) \<Rightarrow> Some (Inl e, unlinkAll en tempOutputPaths w3)
              | (Inr binaryOutput, tempOutputPaths, w3) \<Rightarrow>
                  Some (Inr \<lparr>json = summary, binaryOut = Some binaryOutput, pairedItem = i\<rparr>,
                        unlinkAll en tempOutputPaths w3))
           else Some (Inr \<lparr>json = summary, binaryOut = None, pairedItem = i\<rparr>, w2))"
    "\<exists>w4. planAndExtract en i it bd (orDefault (fileExtension bd) ''m4a'')
        (InputPath n1 i (orDefault (fileExtension bd) ''m4a'')) w1 = Some (Inr r, w4) \<and>
        w' = unlink en (InputPath n1 i (orDefault (fileExtension bd) ''m4a'')) w4"
proof -
  obtain bd where bd: "map_of (binary it) (binaryPropertyName it) = Some bd"
    using run by (auto simp: processItem_def split: option.splits)
  let ?ext = "orDefault (fileExtension bd) ''m4a''"
  obtain n1 w0 where d1: "dateNowCall en w = (n1, w0)" by (cases "dateNowCall en w")
  let ?inp = "InputPath n1 i ?ext"
  obtain r1 w1 where wr: "writeFile en ?inp (buffer bd) w0 = (r1, w1)"
    by (cases "writeFile en ?inp (buffer bd) w0")
  have cs: "calculateSegments en i it bd w = Some (Inr r, w')"
    using run bd by (auto simp: processItem_def split: option.splits sum.splits)
  then have r1: "r1 = Inr ()"
    by (cases r1) (auto simp: calculateSegments_def Let_def d1 wr)
  obtain w4 where
    pe: "planAndExtract en i it bd ?ext ?inp w1 = Some (Inr r, w4)" and w': "w' = unlink en ?inp w4"
    using cs r1 by (auto simp: calculateSegments_def Let_def d1 wr split: option.splits)
  obtain stdout where pr: "probeResult en w1 ?inp = Inr stdout"
    using pe by (cases "probeResult en w1 ?inp") (auto simp: planAndExtract_def execProbe_def)
  obtain m where dm: "durationMatch stdout = Some m"
    using pe pr by (cases "durationMatch stdout") (auto simp: planAndExtract_def execProbe_def)
  obtain segs where
    pl: "planSegments (totalDurationOf m) (segmentLength it) (overlap it) = Some segs"
    using pe pr dm by (cases "planSegments (totalDurationOf m) (segmentLength it) (overlap it)")
       (auto simp: planAndExtract_def execProbe_def)
  have unf: "planAndExtract en i it bd ?ext ?inp w1 =
       (let summary = PlanSummary (totalDurationOf m) (segmentLength it) (overlap it)
                        (length segs) segs;
            w2 = logEvent (ProbeExec ?inp) w1
        in if (case outputSegments it of None \<Rightarrow> False | Some b \<Rightarrow> b) then
             (case extractSegments en i (binaryPropertyName it) bd ?ext ?inp segs [] [] w2 of
                (Inl e, tempOutputPaths, w3) \<Rightarrow> Some (Inl e, unlinkAll en tempOutputPaths w3)
              | (Inr binaryOutput, tempOutputPaths, w3) \<Rightarrow>
                  Some (Inr \<lparr>json = summary, binaryOut = Some binaryOutput, pairedItem = i\<rparr>,
                        unlinkAll en tempOutputPaths w3))
           else Some (Inr \<lparr>json = summary, binaryOut = None, pairedItem = i\<rparr>, w2))"
    by (simp add: planAndExtract_def execProbe_def pr dm pl Let_def)
  show thesis
    using that[OF bd d1 wr[unfolded r1] pr dm pl unf] pe w' by blast
qed

lemma batch_success_shape:
  assumes run: "processItem en ''calculateSegments'' i it w = Some (Inr [r], w')"
    and os: "outputSegments it = Some True"
  shows "\<exists>stdout m segs inp outs.
           durationMatch stdout = Some m \<and>
           planSegments (totalDurationOf m) (segmentLength it) (overlap it) = Some segs \<and>
           json r = PlanSummary (totalDurationOf m) (segmentLength it) (overlap it)
                      (length segs) segs \<and>
           length outs = length segs \<and>
           trace w' = trace w @ [WriteFile inp, ProbeExec inp] @ segmentEvents inp segs outs
                        @ map Unlink outs @ [Unlink inp]"
proof -
  obtain bd n1 w0 w1 stdout m segs where
    bd: "map_of (binary it) (binaryPropertyName it) = Some bd"
    and d1: "dateNowCall en w = (n1, w0)"
    and wr: "writeFile en (InputPath n1 i (orDefault (fileExtension bd) ''m4a'')) (buffer bd) w0 = (Inr (), w1)"
    and dm: "durationMatch stdout = Some m"
    and pl: "planSegments (totalDurationOf m) (segmentLength it) (overlap it) = Some segs"
    and unf: "planAndExtract en i it bd (orDefault (fileExtension bd) ''m4a'')
        (InputPath n1 i (orDefault (fileExtension bd) ''m4a'')) w1 =
       (let summary = PlanSummary (totalDurationOf m) (segmentLength it) (overlap it)
                        (length segs) segs;
            w2 = logEvent (ProbeExec (InputPath n1 i (orDefault (fileExtension bd) ''m4a''))) w1
        in if (case outputSegments it of None \<Rightarrow> False | Some b \<Rightarrow> b) then
             (case extractSegments en i (binaryPropertyName it) bd
                     (orDefault (fileExtension bd) ''m4a'')
                     (InputPath n1 i (orDefault (fileExtension bd) ''m4a'')) segs [] [] w2 of
                (Inl e, tempOutputPaths, w3) \<Rightarrow> Some (Inl e, unlinkAll en tempOutputPaths w3)
              | (Inr binaryOutput, tempOutputPaths, w3) \<Rightarrow>
                  Some (Inr \<lparr>json = summary, binaryOut = Some binaryOutput, pairedItem = i\<rparr>,
                        unlinkAll en tempOutputPaths w3))
           else Some (Inr \<lparr>json = summary, binaryOut = None, pairedItem = i\<rparr>, w2))"
    and fin: "\<exists>w4. planAndExtract en i it bd (orDefault (fileExtension bd) ''m4a'')
        (InputPath n1 i (orDefault (fileExtension bd) ''m4a'')) w1 = Some (Inr r, w4) \<and>
        w' = unlink en (InputPath n1 i (orDefault (fileExtension bd) ''m4a'')) w4"
    using run by (rule calculate_success_cases)
  let ?ext = "orDefault (fileExtension bd) ''m4a''"
  let ?inp = "InputPath n1 i ?ext"
  let ?w2 = "logEvent (ProbeExec ?inp) w1"
  obtain w4 where
    pe: "planAndExtract en i it bd ?ext ?inp w1 = Some (Inr r, w4)" and w': "w' = unlink en ?inp w4"
    using fin by blast
  obtain r3 outs w3 where
    ex: "extractSegments en i (binaryPropertyName it) bd ?ext ?inp segs [] [] ?w2 = (r3, outs, w3)"
    by (cases "extractSegments en i (binaryPropertyName it) bd ?ext ?inp segs [] [] ?w2") auto
  obtain bo where r3: "r3 = Inr bo"
    and r: "r = \<lparr>json = PlanSummary (totalDurationOf m) (segmentLength it) (overlap it)
                      (length segs) segs, binaryOut = Some bo, pairedItem = i\<rparr>"
    and w4: "w4 = unlinkAll en outs w3"
    using pe unf os ex by (cases r3) (auto simp: Let_def)
  obtain outs' where
    o: "outs = [] @ outs'" "length outs' = length segs"
       "trace w3 = trace ?w2 @ segmentEvents ?inp segs outs'" using extractSegments_success[OF ex[unfolded r3]] by blast
  have t1: "trace w1 = trace w @ [WriteFile ?inp]"
    using wr d1 by (auto simp: writeFile_def logEvent_def dateNowCall_def split: writeResult.splits)
  have tr: "trace w' = trace w @ [WriteFile ?inp, ProbeExec ?inp] @ segmentEvents ?inp segs outs
                        @ map Unlink outs @ [Unlink ?inp]"
    using o t1 by (simp add: w' w4 unlink_one_trace unlinkAll_trace logEvent_def)
  show ?thesis
    using dm pl r o tr
    by (intro exI[of _ stdout] exI[of _ m] exI[of _ segs] exI[of _ ?inp] exI[of _ outs]) simp
qed

lemma filter_isExtractExec_segmentEvents:
  "filter isExtractExec (segmentEvents inp segs outs) =
     map2 (\<lambda>sg p. ExtractExec inp (seg_start sg) (fsub (seg_end sg) (seg_start sg)) p) segs outs"
proof (induction segs arbitrary: outs)
  case Nil
  show ?case by (simp add: segmentEvents_def)
next
  case (Cons sg segs)
  show ?case
  proof (cases outs)
    case Nil
    then show ?thesis by (simp add: segmentEvents_def)
  next
    case (Cons p outs')
    then show ?thesis using Cons.IH[of outs'] by (simp add: segmentEvents_Cons)
  qed
qed

lemma filter_isExtractExec_Unlink: "filter isExtractExec (map Unlink ps) = []"
  by (induction ps) auto

text \<open>
  Claim C6, as the code has it. In a batch extraction that succeeds, the record's events
  are: the input file is written and probed; then, segment by segment, the segment's
  output file is extracted and read back; only after the last segment are the output
  files deleted, in the order of their creation, and the input file after them. So a
  segment's output file is read before the next one is created, but it is deleted only
  after all of them exist.
\<close>

theorem batch_files_deleted_after_loop:
  assumes "processItem en ''calculateSegments'' i it w = Some (Inr [r], w')"
    and "outputSegments it = Some True"
  shows "\<exists>T segs inp outs.
           json r = PlanSummary T (segmentLength it) (overlap it) (length segs) segs \<and>
           length outs = length segs \<and>
           trace w' = trace w @ [WriteFile inp, ProbeExec inp] @ segmentEvents inp segs outs
                        @ map Unlink outs @ [Unlink inp]"
  using batch_success_shape[OF assms] by blast

text \<open>
  Claim C9, as the code has it. In a batch extraction that succeeds, the engine is called
  once per reported segment, in order, with the reported start as the offset and, as the
  duration, the reported end minus the reported start, subtracted as doubles. The reported
  segments are the planner's descriptors: the \<open>k\<close>-th holds the two-decimal roundings of
  \<open>currentStart\<close> and of \<open>currentEnd\<close> in round \<open>k\<close>, so the full-precision boundaries
  never reach the engine.
\<close>

theorem batch_extraction_uses_rounded:
  assumes "processItem en ''calculateSegments'' i it w = Some (Inr [r], w')"
    and "outputSegments it = Some True"
  shows "\<exists>T segs inp outs evs.
           json r = PlanSummary T (segmentLength it) (overlap it) (length segs) segs \<and>
           planSegments T (segmentLength it) (overlap it) = Some segs \<and>
           (\<forall>k<length segs.
              segs ! k = plannedSegment T (segmentLength it)
                           (fsub (segmentLength it) (overlap it)) k) \<and>
           length outs = length segs \<and>
           trace w' = trace w @ evs \<and>
           filter isExtractExec evs =
             map2 (\<lambda>sg p. ExtractExec inp (seg_start sg) (fsub (seg_end sg) (seg_start sg)) p)
               segs outs"
proof -
  obtain stdout m segs inp outs where
    s: "planSegments (totalDurationOf m) (segmentLength it) (overlap it) = Some segs"
       "json r = PlanSummary (totalDurationOf m) (segmentLength it) (overlap it)
                      (length segs) segs"
       "length outs = length segs"
       "trace w' = trace w @ [WriteFile inp, ProbeExec inp] @ segmentEvents inp segs outs
                        @ map Unlink outs @ [Unlink inp]"
    using batch_success_shape[OF assms] by blast
  let ?evs = "[WriteFile inp, ProbeExec inp] @ segmentEvents inp segs outs
                        @ map Unlink outs @ [Unlink inp]"
  have f: "filter isExtractExec ?evs =
             map2 (\<lambda>sg p. ExtractExec inp (seg_start sg) (fsub (seg_end sg) (seg_start sg)) p)
               segs outs"
    by (simp add: filter_isExtractExec_segmentEvents filter_isExtractExec_Unlink)
  have nth: "\<forall>k<length segs.
                 segs ! k = plannedSegment (totalDurationOf m) (segmentLength it)
                              (fsub (segmentLength it) (overlap it)) k"
  proof (intro allI impI)
    fix k assume k: "k < length segs"
    have "segs ! k = map (plannedSegment (totalDurationOf m) (segmentLength it)
                       (fsub (segmentLength it) (overlap it))) [0..<length segs] ! k"
      using planSegments_returns[OF s(1)] by simp
    then show "segs ! k = plannedSegment (totalDurationOf m) (segmentLength it)
                              (fsub (segmentLength it) (overlap it)) k"
      using k by simp
  qed
  show ?thesis
    using s f nth
    by (intro exI[of _ "totalDurationOf m"] exI[of _ segs] exI[of _ inp] exI[of _ outs]
          exI[of _ ?evs]) simp
qed

lemma batch_sample_run:
  "processItem (sampleEnv minuteProbe) ''calculateSegments'' 0 batchItem emptyWorld =
     Some (Inr [batchRecord], batchWorld)"
  by (simp add: run_defs insert_Diff_if)

lemma batchItem_outputSegments: "outputSegments batchItem = Some True"
  by (simp add: batchItem_def)

text \<open>
  Claim C6, witness: the theorem at a one-minute input cut into two segments.
\<close>

theorem batch_files_deleted_after_loop_witness:
  "processItem (sampleEnv minuteProbe) ''calculateSegments'' 0 batchItem emptyWorld =
     Some (Inr [batchRecord], batchWorld)
   \<and> outputSegments batchItem = Some True
   \<and> (\<exists>T segs inp outs.
         json batchRecord =
           PlanSummary T (segmentLength batchItem) (overlap batchItem) (length segs) segs \<and>
         length outs = length segs \<and>
         trace batchWorld =
           trace emptyWorld @ [WriteFile inp, ProbeExec inp] @ segmentEvents inp segs outs
             @ map Unlink outs @ [Unlink inp])"
  by (intro conjI batch_sample_run batchItem_outputSegments
        batch_files_deleted_after_loop[OF batch_sample_run batchItem_outputSegments])

lemma overlap_sample_run:
  "processItem (sampleEnv minuteProbe) ''calculateSegments'' 0 overlapItem emptyWorld =
     Some (Inr [overlapRecord], overlapWorld)"
  by (simp add: run_defs insert_Diff_if)

lemma overlapItem_outputSegments: "outputSegments overlapItem = Some True"
  by (simp add: overlapItem_def batchItem_def)

text \<open>
  Claim C9, witness: the theorem at a one-minute input cut with an overlap of 0.1 into
  three segments, whose boundaries are not whole numbers.
\<close>

theorem batch_extraction_uses_rounded_witness:
  "processItem (sampleEnv minuteProbe) ''calculateSegments'' 0 overlapItem emptyWorld =
     Some (Inr [overlapRecord], overlapWorld)
   \<and> outputSegments overlapItem = Some True
   \<and> (\<exists>T segs inp outs evs.
           json overlapRecord =
             PlanSummary T (segmentLength overlapItem) (overlap overlapItem) (length segs) segs \<and>
           planSegments T (segmentLength overlapItem) (overlap overlapItem) = Some segs \<and>
           (\<forall>k<length segs.
              segs ! k = plannedSegment T (segmentLength overlapItem)
                           (fsub (segmentLength overlapItem) (overlap overlapItem)) k) \<and>
           length outs = length segs \<and>
           trace overlapWorld = trace emptyWorld @ evs \<and>
           filter isExtractExec evs =
             map2 (\<lambda>sg p. ExtractExec inp (seg_start sg) (fsub (seg_end sg) (seg_start sg)) p)
               segs outs)"
  by (intro conjI overlap_sample_run overlapItem_outputSegments
        batch_extraction_uses_rounded[OF overlap_sample_run overlapItem_outputSegments])

text \<open>
  Claim C6 as stated fails: in the run over two segments the second output file is created
  before the first is deleted, and when the segment loop ends the input file and both
  output files exist together.
\<close>

theorem batch_files_deleted_after_loop_counterexample:
  "map_option (trace \<circ> snd)
     (processItem (sampleEnv minuteProbe) ''calculateSegments'' 0
        batchItem emptyWorld) =
   Some [WriteFile (InputPath 1000 0 ''m4a''),
         ProbeExec (InputPath 1000 0 ''m4a''),
         ExtractExec (InputPath 1000 0 ''m4a'') 0 30 (SegmentOutputPath 1001 0 0 ''m4a''),
         ReadFile (SegmentOutputPath 1001 0 0 ''m4a''),
         ExtractExec (InputPath 1000 0 ''m4a'') 30 30 (SegmentOutputPath 1002 0 1 ''m4a''),
         ReadFile (SegmentOutputPath 1002 0 1 ''m4a''),
         Unlink (SegmentOutputPath 1001 0 0 ''m4a''),
         Unlink (SegmentOutputPath 1002 0 1 ''m4a''),
         Unlink (InputPath 1000 0 ''m4a'')]
   \<and> files (snd (snd (extractSegments (sampleEnv minuteProbe)
         0 ''data''
         \<lparr>buffer = ''abc'', fileName = Some ''talk.m4a'', fileExtension = Some ''m4a'',
          mimeType = ''audio/mp4''\<rparr>
         ''m4a'' (InputPath 1000 0 ''m4a'')
         [\<lparr>seg_index = 0, seg_start = 0, seg_end = 30\<rparr>,
          \<lparr>seg_index = 1, seg_start = 30, seg_end = 60\<rparr>] [] []
         \<lparr>files = {InputPath 1000 0 ''m4a''},
          trace = [WriteFile (InputPath 1000 0 ''m4a''), ProbeExec (InputPath 1000 0 ''m4a'')],
          ticks = 1\<rparr>))) =
       {SegmentOutputPath 1002 0 1 ''m4a'', SegmentOutputPath 1001 0 0 ''m4a'',
        InputPath 1000 0 ''m4a''}"
  by (simp add: run_defs insert_Diff_if)

text \<open>
  Claim C9 as stated fails: with a duration of 0.25 and a segment length of 0.125 the
  second extraction is called with the offset 0.13 and the duration 0.25 - 0.13, where the
  full-precision boundaries are 0.125 and 0.25, 0.125 apart.
\<close>

theorem batch_extraction_uses_rounded_counterexample:
  "map_option (filter isExtractExec \<circ> trace \<circ> snd)
     (processItem (sampleEnv quarterSecondProbe) ''calculateSegments'' 0
        (batchItem\<lparr>segmentLength := 1/8\<rparr>) emptyWorld) =
   Some [ExtractExec (InputPath 1000 0 ''m4a'') 0 (round64 (13/100))
           (SegmentOutputPath 1001 0 0 ''m4a''),
         ExtractExec (InputPath 1000 0 ''m4a'') (round64 (13/100))
           (fsub (1/4) (round64 (13/100))) (SegmentOutputPath 1002 0 1 ''m4a'')]
   \<and> currentStartAt (fsub (1/8) 0) 1 = 1/8
   \<and> round64 (13/100) \<noteq> 1/8
   \<and> fsub (1/4) (round64 (13/100)) \<noteq> fsub (min (fadd (1/8) (1/8)) (1/4)) (1/8)"
  by (simp add: run_defs insert_Diff_if)

section \<open>Cleanup, empty plans and invalid ranges\<close>

text \<open>
  Claim C7, as the code has it. Whatever way the processing of a record ends, its events
  are some work without any deletion followed by deletion attempts. If writing the input
  file does not fail, every path at which a file may have been created is among the paths
  whose deletion is attempted. If moreover no failed write leaves a file behind and every
  deletion succeeds, the files present afterwards are those present before, less the
  deleted paths: nothing the record created remains. The outcome of a deletion never
  changes the record's result.
\<close>

theorem cleanup_on_every_exit:
  assumes "processItem en operation i it w = Some (r, w')"
  shows "(\<exists>work ps.
            trace w' = trace w @ work @ map Unlink ps \<and>
            filter isUnlink work = [] \<and>
            ((\<forall>w p. writeFileResult en w p = WriteOk) \<longrightarrow>
               set (createdPaths work) \<subseteq> set ps) \<and>
            ((\<forall>w p e. writeFileResult en w p \<noteq> WriteFailed e True) \<and>
             (\<forall>w p. unlinkResult en w p) \<longrightarrow> files w' = files w - set ps))
         \<and> (\<forall>u. map_option fst (processItem (en\<lparr>unlinkResult := u\<rparr>) operation i it w) = Some r)"
proof -
  have "map_option fst (processItem (en\<lparr>unlinkResult := u\<rparr>) operation i it w) = Some r" for u
    using processItem_unlink_irrelevant[of u en operation i it w] assms by simp
  then show ?thesis using processItem_run[OF assms] by blast
qed

lemma extract_sample_run:
  "processItem (sampleEnv []) ''extractSegment'' 0 sampleItem emptyWorld =
     Some (Inr [extractRecord], extractWorld)"
  by (simp add: run_defs insert_Diff_if)

text \<open>
  Claim C7, witness: the theorem at a point extraction that succeeds.
\<close>

theorem cleanup_on_every_exit_witness:
  "processItem (sampleEnv []) ''extractSegment'' 0 sampleItem emptyWorld =
     Some (Inr [extractRecord], extractWorld)
   \<and> (\<exists>work ps.
            trace extractWorld = trace emptyWorld @ work @ map Unlink ps \<and>
            filter isUnlink work = [] \<and>
            ((\<forall>w p. writeFileResult (sampleEnv []) w p = WriteOk) \<longrightarrow>
               set (createdPaths work) \<subseteq> set ps) \<and>
            ((\<forall>w p e. writeFileResult (sampleEnv []) w p \<noteq> WriteFailed e True) \<and>
             (\<forall>w p. unlinkResult (sampleEnv []) w p) \<longrightarrow>
               files extractWorld = files emptyWorld - set ps))
   \<and> (\<forall>u. map_option fst
             (processItem ((sampleEnv [])\<lparr>unlinkResult := u\<rparr>) ''extractSegment'' 0 sampleItem
                emptyWorld) = Some (Inr [extractRecord]))"
  using cleanup_on_every_exit[OF extract_sample_run] extract_sample_run
  by (intro conjI) blast+

text \<open>
  Claim C7 as stated fails where a deletion fails: the failure is swallowed, the record
  succeeds, and both temporary files remain.
\<close>

theorem cleanup_on_every_exit_counterexample:
  "processItem (stuckFilesEnv []) ''extractSegment'' 0 sampleItem emptyWorld =
     Some (Inr [extractRecord],
           extractWorld\<lparr>files := {OutputPath 1001 0 ''m4a'', InputPath 1000 0 ''m4a''}\<rparr>)"
  by (simp add: run_defs insert_Diff_if)

lemma totalDurationOf_nonneg: "0 \<le> totalDurationOf m"
proof (cases m)
  case (fields h mi s)
  have a: "0 \<le> fmul (of_nat (parseDigits h)) 3600" "0 \<le> fmul (of_nat (parseDigits mi)) 60"
    unfolding fmul_def by (intro round64_nonneg; simp)+
  have b: "0 \<le> parseFloat s"
    unfolding parseFloat_def Let_def by (intro round64_nonneg) simp
  have "0 \<le> fadd (fmul (of_nat (parseDigits h)) 3600) (fmul (of_nat (parseDigits mi)) 60)"
    unfolding fadd_def using a by (intro round64_nonneg) simp
  then have "0 \<le> fadd (fadd (fmul (of_nat (parseDigits h)) 3600)
                      (fmul (of_nat (parseDigits mi)) 60)) (parseFloat s)"
    unfolding fadd_def using b by (intro round64_nonneg) simp
  then show ?thesis by (simp add: fields totalDurationOf_def)
qed

lemma planSegments_nothing: "T \<le> 0 \<Longrightarrow> planSegments T L ov = Some []"
  by (simp add: planSegments_def planLoop.simps)

text \<open>
  Claim C4, as the code has it. When the probe reports a duration that is not positive
  (it is then 0), and the input file is written, Calculate Segments does not fail: it
  returns the summary with \<open>segmentCount\<close> 0 and no segments (and an empty binary map
  when output segments are asked for), after writing, probing and deleting the input file.
\<close>

theorem zero_duration_plan:
  assumes bd: "map_of (binary it) (binaryPropertyName it) = Some bd"
    and wr: "\<forall>w p. writeFileResult en w p = WriteOk"
    and pr: "\<forall>w p. probeResult en w p = Inr stdout"
    and dm: "durationMatch stdout = Some m"
    and z: "totalDurationOf m \<le> 0"
  shows "\<exists>w'. processItem en ''calculateSegments'' i it w =
           Some (Inr [\<lparr>json = PlanSummary 0 (segmentLength it) (overlap it) 0 [],
                       binaryOut = (if outputSegments it = Some True then Some [] else None),
                       pairedItem = i\<rparr>], w')
           \<and> trace w' = trace w @
                [WriteFile (InputPath (dateNow en (ticks w)) i (orDefault (fileExtension bd) ''m4a'')),
                 ProbeExec (InputPath (dateNow en (ticks w)) i (orDefault (fileExtension bd) ''m4a'')),
                 Unlink (InputPath (dateNow en (ticks w)) i (orDefault (fileExtension bd) ''m4a''))]"
proof -
  have T0: "totalDurationOf m = 0" using z totalDurationOf_nonneg[of m] by simp
  have pl: "planSegments 0 (segmentLength it) (overlap it) = Some []"
    by (simp add: planSegments_nothing)
  show ?thesis
  proof (cases "outputSegments it")
    case None
    then show ?thesis
      using bd wr pr dm T0 pl
      by (simp add: processItem_def calculateSegments_def planAndExtract_def effect_defs Let_def)
  next
    case (Some b)
    then show ?thesis
      using bd wr pr dm T0 pl
      by (cases b)
         (simp_all add: processItem_def calculateSegments_def planAndExtract_def effect_defs
            unlinkAll_def Let_def)
  qed
qed

lemma silentProbe_match: "durationMatch silentProbe = Some (''00'', ''00'', ''00.00'')"
  by (simp add: silentProbe_def matchDurationAt_def isDigit_def)

text \<open>
  Claim C4, witness: the theorem at a probe that reports \<open>00:00:00.00\<close>.
\<close>

theorem zero_duration_plan_witness:
  "map_of (binary sampleItem) (binaryPropertyName sampleItem) = Some sampleBinary
   \<and> (\<forall>w p. writeFileResult (sampleEnv silentProbe) w p = WriteOk)
   \<and> (\<forall>w p. probeResult (sampleEnv silentProbe) w p = Inr silentProbe)
   \<and> durationMatch silentProbe = Some (''00'', ''00'', ''00.00'')
   \<and> totalDurationOf (''00'', ''00'', ''00.00'') \<le> 0
   \<and> (\<exists>w'. processItem (sampleEnv silentProbe) ''calculateSegments'' 0 sampleItem emptyWorld =
           Some (Inr [\<lparr>json = PlanSummary 0 (segmentLength sampleItem) (overlap sampleItem) 0 [],
                       binaryOut = (if outputSegments sampleItem = Some True then Some [] else None),
                       pairedItem = 0\<rparr>], w')
           \<and> trace w' = trace emptyWorld @
                [WriteFile (InputPath (dateNow (sampleEnv silentProbe) (ticks emptyWorld)) 0
                              (orDefault (fileExtension sampleBinary) ''m4a'')),
                 ProbeExec (InputPath (dateNow (sampleEnv silentProbe) (ticks emptyWorld)) 0
                              (orDefault (fileExtension sampleBinary) ''m4a'')),
                 Unlink (InputPath (dateNow (sampleEnv silentProbe) (ticks emptyWorld)) 0
                              (orDefault (fileExtension sampleBinary) ''m4a''))])"
proof -
  have h1: "map_of (binary sampleItem) (binaryPropertyName sampleItem) = Some sampleBinary"
    by (simp add: sampleItem_def sampleBinary_def)
  have h2: "\<forall>w p. writeFileResult (sampleEnv silentProbe) w p = WriteOk"
    by (simp add: sampleEnv_def)
  have h3: "\<forall>w p. probeResult (sampleEnv silentProbe) w p = Inr silentProbe"
    by (simp add: sampleEnv_def)
  have h5: "totalDurationOf (''00'', ''00'', ''00.00'') \<le> 0"
    by (simp add: totalDurationOf_def parseFloat_def parseDigits_def digitVal_def isDigit_def
          fadd_def fmul_def round64_def)
  show ?thesis
    by (intro conjI h1 h2 h3 silentProbe_match h5
          zero_duration_plan[OF h1 h2 h3 silentProbe_match h5])
qed

text \<open>
  Claim C4 as stated fails: on a probed duration of 0 the operation returns an empty plan
  and no error.
\<close>

theorem zero_duration_plan_counterexample:
  "processItem (sampleEnv silentProbe) ''calculateSegments'' 0 sampleItem emptyWorld =
     Some (Inr [\<lparr>json = PlanSummary 0 30 0 0 [], binaryOut = None, pairedItem = 0\<rparr>],
           \<lparr>files = {},
            trace = [WriteFile (InputPath 1000 0 ''m4a''),
                     ProbeExec (InputPath 1000 0 ''m4a''),
                     Unlink (InputPath 1000 0 ''m4a'')],
            ticks = 1\<rparr>)"
  by (simp add: run_defs silentProbe_def insert_Diff_if)

text \<open>
  Claim C5. A point extraction with \<open>endTime \<le> startTime\<close> fails and leaves the state as
  it was: no event (no write, no engine call, no read, no deletion), no file, no reading of
  the clock. When the record carries the named binary payload, the error is the one with
  the message \<open>End time must be greater than start time\<close>.
\<close>

theorem invalid_time_range_fails_first:
  assumes "endTime it \<le> startTime it"
  shows "\<exists>e. processItem en ''extractSegment'' i it w = Some (Inl e, w) \<and>
           (map_of (binary it) (binaryPropertyName it) \<noteq> None \<longrightarrow>
              e = Error ''End time must be greater than start time'')"
  using assms
  by (cases "map_of (binary it) (binaryPropertyName it)")
     (simp_all add: processItem_def extractSegment_def)

text \<open>
  Claim C5, witness: the theorem at \<open>startTime = 10\<close>, \<open>endTime = 10\<close>.
\<close>

theorem invalid_time_range_fails_first_witness:
  "endTime (sampleItem\<lparr>startTime := 10, endTime := 10\<rparr>)
     \<le> startTime (sampleItem\<lparr>startTime := 10, endTime := 10\<rparr>)
   \<and> (\<exists>e. processItem (sampleEnv []) ''extractSegment'' 0
              (sampleItem\<lparr>startTime := 10, endTime := 10\<rparr>) emptyWorld = Some (Inl e, emptyWorld) \<and>
           (map_of (binary (sampleItem\<lparr>startTime := 10, endTime := 10\<rparr>))
              (binaryPropertyName (sampleItem\<lparr>startTime := 10, endTime := 10\<rparr>)) \<noteq> None \<longrightarrow>
              e = Error ''End time must be greater than start time''))"
proof -
  have h: "endTime (sampleItem\<lparr>startTime := 10, endTime := 10\<rparr>)
     \<le> startTime (sampleItem\<lparr>startTime := 10, endTime := 10\<rparr>)" by simp
  show ?thesis by (intro conjI h invalid_time_range_fails_first[OF h])
qed

section \<open>File names and the planner without progress\<close>

text \<open>
  Claim C10. In a point extraction that succeeds with the custom filename absent or
  empty, the payload is prepared under the generated name: the original name without its
  extension (\<open>audio\<close> when the input payload has no file name), the start and the end
  time, and the extension. An empty custom filename and an absent one give the same run.
\<close>

theorem empty_custom_filename_falls_back:
  assumes run: "processItem en ''extractSegment'' i it w = Some (Inr [r], w')"
    and bd: "map_of (binary it) (binaryPropertyName it) = Some bd"
    and cf: "customFilename it = None \<or> customFilename it = Some []"
  shows "(\<exists>buf. binaryOut r = Some
            [(outputBinaryPropertyName it,
              prepareBinaryData en buf
                (nameWithoutExt (orDefault (fileName bd) ''audio'')
                   @ ''_'' @ numberToString en (startTime it)
                   @ ''_'' @ numberToString en (endTime it)
                   @ ''.'' @ orDefault (fileExtension bd) ''m4a'')
                (mimeType bd))])
         \<and> (fileName bd = None \<longrightarrow> nameWithoutExt (orDefault (fileName bd) ''audio'') = ''audio'')
         \<and> processItem en ''extractSegment'' i (it\<lparr>customFilename := Some []\<rparr>) w =
             processItem en ''extractSegment'' i (it\<lparr>customFilename := None\<rparr>) w"
proof -
  have name: "outputFilename en (customFilename it) bd (startTime it) (endTime it)
                (orDefault (fileExtension bd) ''m4a'') =
              nameWithoutExt (orDefault (fileName bd) ''audio'')
                   @ ''_'' @ numberToString en (startTime it)
                   @ ''_'' @ numberToString en (endTime it)
                   @ ''.'' @ orDefault (fileExtension bd) ''m4a''"
    using cf by (auto simp: outputFilename_def generatedFilename_def)
  have es: "extractSegment en i it bd w = (Inr r, w')"
    using run bd by (auto simp: processItem_def split: prod.splits sum.splits)
  then have "\<exists>buf. binaryOut r = Some
            [(outputBinaryPropertyName it,
              prepareBinaryData en buf
                (outputFilename en (customFilename it) bd (startTime it) (endTime it)
                   (orDefault (fileExtension bd) ''m4a''))
                (mimeType bd))]"
    by (auto simp: extractSegment_def extractAndRead_def Let_def
             split: if_splits prod.splits sum.splits)
  then have a: "\<exists>buf. binaryOut r = Some
            [(outputBinaryPropertyName it,
              prepareBinaryData en buf
                (nameWithoutExt (orDefault (fileName bd) ''audio'')
                   @ ''_'' @ numberToString en (startTime it)
                   @ ''_'' @ numberToString en (endTime it)
                   @ ''.'' @ orDefault (fileExtension bd) ''m4a'')
                (mimeType bd))]"
    unfolding name .
  have b: "fileName bd = None \<longrightarrow> nameWithoutExt (orDefault (fileName bd) ''audio'') = ''audio''"
    by (simp add: orDefault_def)
  have c: "processItem en ''extractSegment'' i (it\<lparr>customFilename := Some []\<rparr>) w =
             processItem en ''extractSegment'' i (it\<lparr>customFilename := None\<rparr>) w"
  proof -
    have ea: "extractAndRead en i (it\<lparr>customFilename := Some []\<rparr>) bd ext inp outp w1 =
              extractAndRead en i (it\<lparr>customFilename := None\<rparr>) bd ext inp outp w1"
      for ext inp outp w1
      by (simp add: extractAndRead_def outputFilename_def Let_def split: prod.splits sum.splits)
    have es: "extractSegment en i (it\<lparr>customFilename := Some []\<rparr>) bd w =
              extractSegment en i (it\<lparr>customFilename := None\<rparr>) bd w"
      by (simp add: extractSegment_def ea Let_def split: prod.splits sum.splits)
    show ?thesis using bd by (simp add: processItem_def es)
  qed
  show ?thesis using a b c by blast
qed

lemma sampleItem_binary:
  "map_of (binary sampleItem) (binaryPropertyName sampleItem) = Some sampleBinary"
  by (simp add: sampleItem_def sampleBinary_def)

text \<open>
  Claim C10, witness: the theorem at the sample item, whose payload is named
  \<open>talk.m4a\<close>; the output is named \<open>talk_0_30.m4a\<close>.
\<close>

theorem empty_custom_filename_falls_back_witness:
  "processItem (sampleEnv []) ''extractSegment'' 0 sampleItem emptyWorld =
     Some (Inr [extractRecord], extractWorld)
   \<and> map_of (binary sampleItem) (binaryPropertyName sampleItem) = Some sampleBinary
   \<and> (customFilename sampleItem = None \<or> customFilename sampleItem = Some [])
   \<and> (\<exists>buf. binaryOut extractRecord = Some
            [(outputBinaryPropertyName sampleItem,
              prepareBinaryData (sampleEnv []) buf
                (nameWithoutExt (orDefault (fileName sampleBinary) ''audio'')
                   @ ''_'' @ numberToString (sampleEnv []) (startTime sampleItem)
                   @ ''_'' @ numberToString (sampleEnv []) (endTime sampleItem)
                   @ ''.'' @ orDefault (fileExtension sampleBinary) ''m4a'')
                (mimeType sampleBinary))])
   \<and> binaryOut extractRecord = Some
        [(''data'', \<lparr>buffer = ''bytes'', fileName = Some ''talk_0_30.m4a'',
                    fileExtension = None, mimeType = ''audio/mp4''\<rparr>)]
   \<and> processItem (sampleEnv []) ''extractSegment'' 0 (sampleItem\<lparr>customFilename := Some []\<rparr>)
        emptyWorld =
      processItem (sampleEnv []) ''extractSegment'' 0 (sampleItem\<lparr>customFilename := None\<rparr>)
        emptyWorld"
proof -
  have cf: "customFilename sampleItem = None \<or> customFilename sampleItem = Some []"
    by (simp add: sampleItem_def)
  have rec: "binaryOut extractRecord = Some
        [(''data'', \<lparr>buffer = ''bytes'', fileName = Some ''talk_0_30.m4a'',
                    fileExtension = None, mimeType = ''audio/mp4''\<rparr>)]"
    by (simp add: extractRecord_def)
  note t = empty_custom_filename_falls_back[OF extract_sample_run sampleItem_binary cf]
  show ?thesis
    by (intro conjI extract_sample_run sampleItem_binary cf rec conjunct1[OF t]
          conjunct2[OF conjunct2[OF t]])
qed

text \<open>
  Claim C3 at a failing input: with a duration of 10, a segment length of 5 and an overlap
  of 5 the planning loop never leaves, so neither the record's processing nor the run
  returns; no error is raised.
\<close>

theorem overlap_not_below_length_never_returns:
  "planSegments 10 5 5 = None
   \<and> processItem (sampleEnv tenSecondProbe) ''calculateSegments'' 0
        (sampleItem\<lparr>segmentLength := 5, overlap := 5\<rparr>) emptyWorld = None
   \<and> execute (sampleEnv tenSecondProbe) ''calculateSegments''
        [sampleItem\<lparr>segmentLength := 5, overlap := 5\<rparr>] emptyWorld = None"
  by (simp add: run_defs tenSecondProbe_def execute_def planLoop_stuck del: planLoop.simps)

section \<open>Failing records\<close>

lemma extractSegment_paired:
  assumes "extractSegment en i it bd w = (Inr r, w')"
  shows "pairedItem r = i"
  using assms
  by (auto simp: extractSegment_def extractAndRead_def Let_def
           split: if_splits prod.splits sum.splits)

lemma planAndExtract_paired:
  assumes "planAndExtract en i it bd ext inp w = Some (Inr r, w')"
  shows "pairedItem r = i"
  using assms
  by (auto simp: planAndExtract_def Let_def
           split: if_splits prod.splits sum.splits option.splits)

lemma calculateSegments_paired:
  assumes "calculateSegments en i it bd w = Some (Inr r, w')"
  shows "pairedItem r = i"
  using assms planAndExtract_paired
  by (auto simp: calculateSegments_def Let_def
           split: if_splits prod.splits sum.splits option.splits)

lemma processItem_paired:
  assumes "processItem en operation i it w = Some (Inr outs, w')"
  shows "list_all (\<lambda>r. pairedItem r = i) outs"
  using assms calculateSegments_paired extractSegment_paired
  by (auto simp: processItem_def split: if_splits prod.splits sum.splits option.splits)

lemma processItem_single:
  assumes "processItem en operation i it w = Some (Inr outs, w')"
    and "operation = ''calculateSegments'' \<or> operation = ''extractSegment''"
  shows "\<exists>r. outs = [r]"
  using assms
  by (auto simp: processItem_def split: if_splits prod.splits sum.splits option.splits)

lemma executeLoop_append:
  "executeLoop en operation k (xs @ ys) rd w =
     (case executeLoop en operation k xs rd w of
        None \<Rightarrow> None
      | Some (Inr rd1, w1) \<Rightarrow> executeLoop en operation (k + length xs) ys rd1 w1
      | Some (Inl f, w1) \<Rightarrow> Some (Inl f, w1))"
proof (induction xs arbitrary: k rd w)
  case Nil
  show ?case by simp
next
  case (Cons x xs)
  show ?case
    by (simp add: Cons.IH split: option.splits prod.splits sum.splits)
qed

lemma sorted_constant:
  assumes "list_all (\<lambda>r. f r = (k::nat)) xs"
  shows "sorted (map f xs)"
  using assms by (induction xs) (auto simp: list_all_iff)

lemma executeLoop_returnData:
  assumes "executeLoop en operation k items rd w = Some (Inr out, w')"
  shows "\<exists>new. out = rd @ new \<and>
           list_all (\<lambda>r. k \<le> pairedItem r \<and> pairedItem r < k + length items) new \<and>
           sorted (map pairedItem new)"
  using assms
proof (induction items arbitrary: k rd w)
  case Nil
  then show ?case by auto
next
  case (Cons it items)
  show ?case
  proof (cases "processItem en operation k it w")
    case None
    then show ?thesis using Cons.prems by simp
  next
    case (Some a)
    obtain r1 w1 where a: "a = (r1, w1)" by (cases a)
    show ?thesis
    proof (cases r1)
      case (Inr pushed)
      then have rec: "executeLoop en operation (k + 1) items (rd @ pushed) w1 = Some (Inr out, w')"
        using Cons.prems Some a by simp
      obtain new where
        n: "out = (rd @ pushed) @ new"
           "list_all (\<lambda>r. k + 1 \<le> pairedItem r \<and> pairedItem r < k + 1 + length items) new"
           "sorted (map pairedItem new)" using Cons.IH[OF rec] by blast
      have p: "list_all (\<lambda>r. pairedItem r = k) pushed"
        using processItem_paired Some a Inr by blast
      have s: "sorted (map pairedItem (pushed @ new))"
        using p n(2) n(3) sorted_constant[OF p] by (auto simp: sorted_append list_all_iff)
      have l: "list_all (\<lambda>r. k \<le> pairedItem r \<and> pairedItem r < k + length (it # items))
                 (pushed @ new)"
        using p n(2) by (auto simp: list_all_iff)
      show ?thesis using n(1) s l by (intro exI[of _ "pushed @ new"]) simp
    next
      case (Inl e)
      show ?thesis
      proof (cases "continueOnFail en")
        case False
        then show ?thesis using Cons.prems Some a Inl by simp
      next
        case True
        let ?err = "\<lparr>json = ErrorSummary (message e), binaryOut = None, pairedItem = k\<rparr>"
        have rec: "executeLoop en operation (k + 1) items (rd @ [?err]) w1 = Some (Inr out, w')"
          using Cons.prems Some a Inl True by simp
        obtain new where
          n: "out = (rd @ [?err]) @ new"
             "list_all (\<lambda>r. k + 1 \<le> pairedItem r \<and> pairedItem r < k + 1 + length items) new"
             "sorted (map pairedItem new)" using Cons.IH[OF rec] by blast
        have s: "sorted (map pairedItem (?err # new))"
          using n(2) n(3) by (auto simp: list_all_iff)
        have l: "list_all (\<lambda>r. k \<le> pairedItem r \<and> pairedItem r < k + length (it # items))
                   (?err # new)"
          using n(2) by (auto simp: list_all_iff)
        show ?thesis using n(1) s l by (intro exI[of _ "?err # new"]) simp
      qed
    qed
  qed
qed

lemma executeLoop_tolerant_completes:
  assumes "continueOnFail en" "executeLoop en operation k items rd w = Some (res, w')"
  shows "\<exists>out. res = Inr out"
  using assms
proof (induction items arbitrary: k rd w)
  case Nil
  then show ?case by auto
next
  case (Cons it items)
  then show ?case
    by (auto split: option.splits prod.splits sum.splits)
qed

lemma executeLoop_one_per_record:
  assumes "continueOnFail en"
    and "operation = ''calculateSegments'' \<or> operation = ''extractSegment''"
    and "executeLoop en operation k items rd w = Some (Inr out, w')"
  shows "\<exists>new. out = rd @ new \<and> map pairedItem new = [k..<k + length items]"
  using assms(3)
proof (induction items arbitrary: k rd w)
  case Nil
  then show ?case by auto
next
  case (Cons it items)
  show ?case
  proof (cases "processItem en operation k it w")
    case None
    then show ?thesis using Cons.prems by simp
  next
    case (Some a)
    obtain r1 w1 where a: "a = (r1, w1)" by (cases a)
    have "k < k + length (it # items)" by simp
    then have "[k..<k + length (it # items)] = k # [Suc k..<k + length (it # items)]"
      by (rule upt_conv_Cons)
    then have upt: "[k..<k + length (it # items)] = k # [k + 1..<k + 1 + length items]"
      by simp
    show ?thesis
    proof (cases r1)
      case (Inr pushed)
      then have rec: "executeLoop en operation (k + 1) items (rd @ pushed) w1 = Some (Inr out, w')"
        using Cons.prems Some a by simp
      obtain new where
        n: "out = (rd @ pushed) @ new" "map pairedItem new = [k + 1..<k + 1 + length items]"
        using Cons.IH[OF rec] by blast
      obtain r where r: "pushed = [r]"
        using processItem_single[OF _ assms(2)] Some a Inr by blast
      have "pairedItem r = k" using processItem_paired Some a Inr r by fastforce
      then show ?thesis using n r upt by (intro exI[of _ "pushed @ new"]) simp
    next
      case (Inl e)
      let ?err = "\<lparr>json = ErrorSummary (message e), binaryOut = None, pairedItem = k\<rparr>"
      have rec: "executeLoop en operation (k + 1) items (rd @ [?err]) w1 = Some (Inr out, w')"
        using Cons.prems Some a Inl assms(1) by simp
      obtain new where
        n: "out = (rd @ [?err]) @ new" "map pairedItem new = [k + 1..<k + 1 + length items]"
        using Cons.IH[OF rec] by blast
      show ?thesis using n upt by (intro exI[of _ "?err # new"]) simp
    qed
  qed
qed

lemma processItem_trace:
  assumes "processItem en operation i it w = Some (r, w')"
  shows "\<exists>evs. trace w' = trace w @ evs"
  using processItem_run[OF assms] by auto

lemma executeLoop_trace:
  assumes "executeLoop en operation k items rd w = Some (res, w')"
  shows "\<exists>evs. trace w' = trace w @ evs"
  using assms
proof (induction items arbitrary: k rd w)
  case Nil
  then show ?case by auto
next
  case (Cons it items)
  show ?case
  proof (cases "processItem en operation k it w")
    case None
    then show ?thesis using Cons.prems by simp
  next
    case (Some a)
    obtain r1 w1 where a: "a = (r1, w1)" by (cases a)
    obtain e1 where e1: "trace w1 = trace w @ e1"
      using processItem_trace Some a by blast
    show ?thesis
    proof (cases "\<exists>e. r1 = Inl e \<and> \<not> continueOnFail en")
      case True
      then have "w' = w1" using Cons.prems Some a by auto
      then show ?thesis using e1 by blast
    next
      case False
      then obtain rd1 where "executeLoop en operation (k + 1) items rd1 w1 = Some (res, w')"
        using Cons.prems Some a by (cases r1) (auto split: if_splits)
      then obtain e2 where "trace w' = trace w1 @ e2" using Cons.IH by blast
      then show ?thesis using e1 by (intro exI[of _ "e1 @ e2"]) simp
    qed
  qed
qed

text \<open>
  Claim C8, as the code has it. Let the records before position \<open>i\<close> have been processed
  without a re-thrown error, leaving the outputs \<open>rd\<close>, and let record \<open>i\<close> fail with error
  \<open>e\<close>. With the continue-on-fail switch set, the run goes on with the records after
  \<open>i\<close> and, when it returns, it returns the outputs \<open>rd\<close>, then the record
  \<open>{json: {error: message}, pairedItem: i}\<close> without binary data, then the outputs of the
  later records; outputs are paired with positions in increasing order, and for the two
  operations of the node there is exactly one output per input record. With the switch not
  set, the run returns the error wrapped with the position \<open>i\<close> and nothing else, in the
  state record \<open>i\<close> left: no later record is processed. In both cases the events of the
  earlier records remain in the state.
\<close>

theorem failing_record_handling:
  assumes pre: "executeLoop en operation 0 (take i items) [] w = Some (Inr rd, wi)"
    and i: "i < length items"
    and fail: "processItem en operation i (items ! i) wi = Some (Inl e, wi')"
  shows "execute en operation items w =
           (if continueOnFail en
            then map_option returnValue
                   (executeLoop en operation (Suc i) (drop (Suc i) items)
                      (rd @ [\<lparr>json = ErrorSummary (message e), binaryOut = None,
                               pairedItem = i\<rparr>]) wi')
            else Some (Inl (NodeOperationError e i), wi'))
         \<and> list_all (\<lambda>r. pairedItem r < i) rd
         \<and> (\<forall>res w2. continueOnFail en \<and> execute en operation items w = Some (res, w2)
               \<longrightarrow> (\<exists>rest. res = Inr [rd @ [\<lparr>json = ErrorSummary (message e), binaryOut = None,
                                               pairedItem = i\<rparr>] @ rest] \<and>
                          list_all (\<lambda>r. i < pairedItem r) rest \<and>
                          sorted (map pairedItem rest) \<and>
                          (operation = ''calculateSegments'' \<or> operation = ''extractSegment''
                             \<longrightarrow> map pairedItem
                                   (rd @ [\<lparr>json = ErrorSummary (message e), binaryOut = None,
                                           pairedItem = i\<rparr>] @ rest) = [0..<length items])))
         \<and> (\<exists>before during. trace wi = trace w @ before \<and> trace wi' = trace wi @ during)"
proof -
  let ?err = "\<lparr>json = ErrorSummary (message e), binaryOut = None, pairedItem = i\<rparr>"
  have split: "items = take i items @ (items ! i) # drop (Suc i) items"
    using i by (simp add: id_take_nth_drop)
  have len: "length (take i items) = i" using i by simp
  have "executeLoop en operation 0 items [] w =
          executeLoop en operation 0 (take i items @ (items ! i) # drop (Suc i) items) [] w"
    using split by simp
  also have "\<dots> = executeLoop en operation i ((items ! i) # drop (Suc i) items) rd wi"
    by (simp only: executeLoop_append pre len) simp
  also have "\<dots> = (if continueOnFail en
            then executeLoop en operation (Suc i) (drop (Suc i) items) (rd @ [?err]) wi'
            else Some (Inl (NodeOperationError e i), wi'))"
    using fail by simp
  finally have loop: "executeLoop en operation 0 items [] w =
           (if continueOnFail en
            then executeLoop en operation (Suc i) (drop (Suc i) items) (rd @ [?err]) wi'
            else Some (Inl (NodeOperationError e i), wi'))" .
  have main: "execute en operation items w =
           (if continueOnFail en
            then map_option returnValue
                   (executeLoop en operation (Suc i) (drop (Suc i) items) (rd @ [?err]) wi')
            else Some (Inl (NodeOperationError e i), wi'))"
    by (simp add: execute_def loop returnValue_def)
  have prior: "list_all (\<lambda>r. pairedItem r < i) rd"
    using executeLoop_returnData[OF pre] len by (auto simp: list_all_iff)
  have later: "\<exists>rest. res = Inr [rd @ [?err] @ rest] \<and>
                  list_all (\<lambda>r. i < pairedItem r) rest \<and> sorted (map pairedItem rest) \<and>
                  (operation = ''calculateSegments'' \<or> operation = ''extractSegment''
                     \<longrightarrow> map pairedItem (rd @ [?err] @ rest) = [0..<length items])"
    if c: "continueOnFail en" and run: "execute en operation items w = Some (res, w2)"
    for res w2
  proof -
    obtain y where y: "executeLoop en operation 0 items [] w = Some y"
      and ry: "returnValue y = (res, w2)"
      using run by (auto simp: execute_def)
    obtain x wx where yx: "y = (x, wx)" by (cases y)
    have "wx = w2" using ry yx by (cases x) (simp_all add: returnValue_def)
    then have x: "executeLoop en operation 0 items [] w = Some (x, w2)"
      and rx: "returnValue (x, w2) = (res, w2)"
      using y ry yx by simp_all
    obtain out where out: "x = Inr out" using executeLoop_tolerant_completes[OF c x] by blast
    have res: "res = Inr [out]" using rx out by (simp add: returnValue_def)
    have rec: "executeLoop en operation (Suc i) (drop (Suc i) items) (rd @ [?err]) wi' =
                 Some (Inr out, w2)"
      using loop c x out by simp
    obtain new where
      n: "out = (rd @ [?err]) @ new"
         "list_all (\<lambda>r. Suc i \<le> pairedItem r \<and> pairedItem r < Suc i + length (drop (Suc i) items)) new"
         "sorted (map pairedItem new)" using executeLoop_returnData[OF rec] by blast
    have gt: "list_all (\<lambda>r. i < pairedItem r) new" using n(2) by (auto simp: list_all_iff)
    have all: "map pairedItem (rd @ [?err] @ new) = [0..<length items]"
      if op: "operation = ''calculateSegments'' \<or> operation = ''extractSegment''"
    proof -
      obtain full where "out = [] @ full" "map pairedItem full = [0..<0 + length items]"
        using executeLoop_one_per_record[OF c op x[unfolded out]] by blast
      then show ?thesis using n(1) by simp
    qed
    show ?thesis using res n(1) n(3) gt all by (intro exI[of _ new]) simp
  qed
  obtain before where before: "trace wi = trace w @ before"
    using executeLoop_trace[OF pre] by blast
  obtain during where during: "trace wi' = trace wi @ during"
    using processItem_trace[OF fail] by blast
  have eff: "\<exists>before during. trace wi = trace w @ before \<and> trace wi' = trace wi @ during"
    using before during by blast
  show ?thesis using main prior later eff by blast
qed

lemmas run_defs2 = run_defs threeItems_def rangeError_def tolerantEnv_def
  rangeErrorRecord_def threeItemsWorld_def execute_def returnValue_def

lemma threeItems_prefix_strict:
  "executeLoop (sampleEnv []) ''extractSegment'' 0 (take 1 threeItems) [] emptyWorld =
     Some (Inr [extractRecord], extractWorld)"
  by (simp add: run_defs2 insert_Diff_if)

lemma threeItems_prefix_tolerant:
  "executeLoop tolerantEnv ''extractSegment'' 0 (take 1 threeItems) [] emptyWorld =
     Some (Inr [extractRecord], extractWorld)"
  by (simp add: run_defs2 insert_Diff_if)

lemma threeItems_length: "1 < length threeItems"
  by (simp add: threeItems_def)

lemma threeItems_fail_strict:
  "processItem (sampleEnv []) ''extractSegment'' 1 (threeItems ! 1) extractWorld =
     Some (Inl rangeError, extractWorld)"
  by (simp add: run_defs2)

lemma threeItems_fail_tolerant:
  "processItem tolerantEnv ''extractSegment'' 1 (threeItems ! 1) extractWorld =
     Some (Inl rangeError, extractWorld)"
  by (simp add: run_defs2)

text \<open>
  Claim C8, witness: the theorem at three items whose second has an empty time range,
  once with the switch not set and once with it set.
\<close>

theorem failing_record_handling_witness:
  "executeLoop (sampleEnv []) ''extractSegment'' 0 (take 1 threeItems) [] emptyWorld =
     Some (Inr [extractRecord], extractWorld)
   \<and> 1 < length threeItems
   \<and> processItem (sampleEnv []) ''extractSegment'' 1 (threeItems ! 1) extractWorld =
       Some (Inl rangeError, extractWorld)
   \<and> execute (sampleEnv []) ''extractSegment'' threeItems emptyWorld =
       Some (Inl (NodeOperationError rangeError 1), extractWorld)
   \<and> executeLoop tolerantEnv ''extractSegment'' 0 (take 1 threeItems) [] emptyWorld =
       Some (Inr [extractRecord], extractWorld)
   \<and> processItem tolerantEnv ''extractSegment'' 1 (threeItems ! 1) extractWorld =
       Some (Inl rangeError, extractWorld)
   \<and> execute tolerantEnv ''extractSegment'' threeItems emptyWorld =
       map_option returnValue
         (executeLoop tolerantEnv ''extractSegment'' 2 (drop 2 threeItems)
            [extractRecord, rangeErrorRecord] extractWorld)
   \<and> execute tolerantEnv ''extractSegment'' threeItems emptyWorld =
       Some (Inr [[extractRecord, rangeErrorRecord, extractRecord\<lparr>pairedItem := 2\<rparr>]],
             threeItemsWorld)"
proof -
  have strict: "\<not> continueOnFail (sampleEnv [])" by (simp add: sampleEnv_def)
  have tolerant: "continueOnFail tolerantEnv" by (simp add: tolerantEnv_def sampleEnv_def)
  note s = failing_record_handling[OF threeItems_prefix_strict threeItems_length
      threeItems_fail_strict]
  note t = failing_record_handling[OF threeItems_prefix_tolerant threeItems_length
      threeItems_fail_tolerant]
  have s1: "execute (sampleEnv []) ''extractSegment'' threeItems emptyWorld =
       Some (Inl (NodeOperationError rangeError 1), extractWorld)"
    using conjunct1[OF s] strict by simp
  have t1: "execute tolerantEnv ''extractSegment'' threeItems emptyWorld =
       map_option returnValue
         (executeLoop tolerantEnv ''extractSegment'' 2 (drop 2 threeItems)
            [extractRecord, rangeErrorRecord] extractWorld)"
    using conjunct1[OF t] tolerant by (simp add: rangeErrorRecord_def rangeError_def numeral_2_eq_2)
  have t2: "map_option returnValue
         (executeLoop tolerantEnv ''extractSegment'' 2 (drop 2 threeItems)
            [extractRecord, rangeErrorRecord] extractWorld) =
       Some (Inr [[extractRecord, rangeErrorRecord, extractRecord\<lparr>pairedItem := 2\<rparr>]],
             threeItemsWorld)"
    by (simp add: run_defs2 insert_Diff_if)
  show ?thesis
    by (intro conjI threeItems_prefix_strict threeItems_length threeItems_fail_strict s1
          threeItems_prefix_tolerant threeItems_fail_tolerant t1 t1[unfolded t2])
qed

text \<open>
  Claim C8 as stated fails in its last part: the first of the three items has produced an
  output record when the second fails, and with the switch not set the run returns the
  wrapped error only; the output record is not returned.
\<close>

theorem failing_record_handling_counterexample:
  "executeLoop (sampleEnv []) ''extractSegment'' 0 (take 1 threeItems) [] emptyWorld =
     Some (Inr [extractRecord], extractWorld)
   \<and> execute (sampleEnv []) ''extractSegment'' threeItems emptyWorld =
       Some (Inl (NodeOperationError rangeError 1), extractWorld)"
  by (simp add: run_defs2 insert_Diff_if)

end
